theory Spec2Isabelle
  imports Main "HOL-Library.Word"
begin

section \<open>Values, documents and errors\<close>

text \<open>
  The connector (\<^verbatim>\<open>src/nodes/MongoDb/MongoDb.node.ts\<close>) moves JavaScript values
  between the workflow host and the database driver.  A value is a tree; a plain object
  is an association list in insertion order (JavaScript keeps it), a key being read at
  its first pair; an \<^verbatim>\<open>ObjectId\<close> is its twelve bytes; a date is its epoch time;
  \<open>VProto k\<close> is the property \<open>k\<close> of \<^verbatim>\<open>Object.prototype\<close>.
  Numbers are integers here: the connector only compares \<^verbatim>\<open>skip\<close> and
  \<^verbatim>\<open>limit\<close> with zero.  A string is the list of the bytes of its UTF-8
  encoding: a character beyond ASCII is two or more bytes (U+00A0 is
  \<^verbatim>\<open>C2 A0\<close>).
\<close>

datatype jsval =
    VUndefined
  | VNull
  | VBool bool
  | VNum int
  | VStr string
  | VOid "8 word list"
  | VDate int
  | VArr "jsval list"
  | VObj "(string \<times> jsval) list"
  | VProto string

type_synonym document = "(string \<times> jsval) list"

text \<open>
  \<^verbatim>\<open>obj[k]\<close> on a plain object: the value of the object's own key; for a key the
  object does not have, what \<^verbatim>\<open>Object.prototype\<close> holds under that name
  (\<open>VProto k\<close>: \<^verbatim>\<open>Object\<close> itself for \<^verbatim>\<open>constructor\<close>), and
  \<^verbatim>\<open>undefined\<close> for any other name.
\<close>

definition object_prototype_keys :: "string list" where
  "object_prototype_keys =
     [''constructor'', ''__proto__'', ''hasOwnProperty'', ''isPrototypeOf'',
      ''propertyIsEnumerable'', ''toLocaleString'', ''toString'', ''valueOf'',
      ''__defineGetter__'', ''__defineSetter__'', ''__lookupGetter__'', ''__lookupSetter__'']"

definition obj_get :: "document \<Rightarrow> string \<Rightarrow> jsval" where
  "obj_get kvs k =
     (case map_of kvs k of
        None \<Rightarrow> if k \<in> set object_prototype_keys then VProto k else VUndefined
      | Some v \<Rightarrow> v)"

text \<open>\<^verbatim>\<open>obj[k] = v\<close>: an existing key keeps its place, a new key goes last.\<close>

fun obj_set :: "document \<Rightarrow> string \<Rightarrow> jsval \<Rightarrow> document" where
  "obj_set [] k v = [(k, v)]"
| "obj_set (kv # kvs) k v = (if fst kv = k then (k, v) # kvs else kv # obj_set kvs k v)"

text \<open>\<^verbatim>\<open>delete obj[k]\<close>.\<close>

definition obj_delete :: "document \<Rightarrow> string \<Rightarrow> document" where
  "obj_delete kvs k = filter (\<lambda>kv. fst kv \<noteq> k) kvs"

definition has_key :: "document \<Rightarrow> string \<Rightarrow> bool" where
  "has_key kvs k = (map_of kvs k \<noteq> None)"

text \<open>
  Every exception the connector can see, by origin: \<^verbatim>\<open>EJSON.parse\<close>, a property
  read on \<^verbatim>\<open>null\<close>, the \<^verbatim>\<open>ObjectId\<close> constructor, the item normalizer, a
  database verb, and the connector's own \<^verbatim>\<open>NodeOperationError\<close>.  Each carries its
  \<^verbatim>\<open>message\<close>.
\<close>

datatype error =
    ParseError string
  | TypeError string
  | IdentifierCoercionError string
  | NormalizerError string
  | DatabaseError string
  | NodeOperationError string

fun message :: "error \<Rightarrow> string" where
  "message (ParseError m) = m"
| "message (TypeError m) = m"
| "message (IdentifierCoercionError m) = m"
| "message (NormalizerError m) = m"
| "message (DatabaseError m) = m"
| "message (NodeOperationError m) = m"

section \<open>The database driver and the other collaborators\<close>

text \<open>
  One constructor per verb the connector calls, with the arguments it passes.  A find
  cursor is recorded when \<^verbatim>\<open>toArray\<close> runs it, with the \<^verbatim>\<open>skip\<close>,
  \<^verbatim>\<open>limit\<close> and \<^verbatim>\<open>sort\<close> that were applied to it (\<open>None\<close>: not applied).
  The last argument of the three per-item verbs is the upsert flag
  (\<^verbatim>\<open>{ upsert: true }\<close> or \<^verbatim>\<open>undefined\<close>).
\<close>

datatype db_call =
    Aggregate string jsval
  | DeleteMany string jsval
  | Find string jsval "int option" "int option" "jsval option"
  | FindOneAndReplace string document jsval bool
  | FindOneAndUpdate string document jsval bool
  | InsertMany string "document list"
  | UpdateOne string document jsval bool

text \<open>
  The driver, the Extended-JSON parser, the \<^verbatim>\<open>ObjectId\<close> constructor and the two
  helpers of \<^verbatim>\<open>GenericFunctions\<close> are imported by the connector; here they
  are parameters.  A verb sees the calls made before it in this invocation, so its
  answer may change from one call to the next; it answers with an error message
  (\<open>Inl\<close>, \<open>Some\<close>) or with its result.  \<^verbatim>\<open>insertMany\<close> answers with the
  documents as they are after the call and the generated identifiers by index.
\<close>

record env =
  EJSON_parse :: "string \<Rightarrow> string + jsval"
  ObjectId_new :: "jsval \<Rightarrow> string + 8 word list"
  prepareFields :: "string \<Rightarrow> string list"
  prepareItems :: "jsval list \<Rightarrow> string list \<Rightarrow> string \<Rightarrow> bool \<Rightarrow> string list \<Rightarrow> string list
                     \<Rightarrow> string + document list"
  aggregate_toArray :: "db_call list \<Rightarrow> string \<Rightarrow> jsval \<Rightarrow> string + jsval list"
  deleteMany :: "db_call list \<Rightarrow> string \<Rightarrow> jsval \<Rightarrow> string + jsval"
  find_toArray :: "db_call list \<Rightarrow> string \<Rightarrow> jsval \<Rightarrow> int option \<Rightarrow> int option \<Rightarrow> jsval option
                     \<Rightarrow> string + jsval list"
  insertMany :: "db_call list \<Rightarrow> string \<Rightarrow> document list
                     \<Rightarrow> string + document list \<times> (nat \<times> jsval) list"
  findOneAndReplace :: "db_call list \<Rightarrow> string \<Rightarrow> document \<Rightarrow> jsval \<Rightarrow> bool \<Rightarrow> string option"
  findOneAndUpdate :: "db_call list \<Rightarrow> string \<Rightarrow> document \<Rightarrow> jsval \<Rightarrow> bool \<Rightarrow> string option"
  updateOne :: "db_call list \<Rightarrow> string \<Rightarrow> document \<Rightarrow> jsval \<Rightarrow> bool \<Rightarrow> string option"

text \<open>The node parameters and the input data of one invocation.\<close>

record find_options =
  opt_limit :: "int option"
  opt_skip :: "int option"
  opt_sort :: "string option"

record parameters =
  operation :: string
  collection :: string
  query :: string
  options :: find_options
  fieldsParam :: string
  useDotNotation :: bool
  dateFields :: string
  oidFields :: string
  updateKeyParam :: string
  upsert :: bool
  continueOnFail :: bool
  inputData :: "jsval list"

text \<open>
  What an invocation leaves behind: the response data it built or the error it threw,
  the verbs it called, in order, and how many times it closed the client.
\<close>

record run =
  outcome :: "error + jsval list"
  calls :: "db_call list"
  closed :: nat

type_synonym 'a attempt = "(error + 'a) \<times> db_call list"

section \<open>The query strings\<close>

text \<open>
  Lines 128--130 and 172--174: \<^verbatim>\<open>if (q._id && typeof q._id === 'string') q._id = new ObjectId(q._id)\<close>.
  Reading \<^verbatim>\<open>_id\<close> of \<^verbatim>\<open>null\<close> throws; of an array, a number or a string it is
  \<^verbatim>\<open>undefined\<close>.  The guard holds for a non-empty string only.
\<close>

definition reading_id_of :: "string \<Rightarrow> string" where
  "reading_id_of v =
     ''Cannot read properties of '' @ v @ '' (reading '' @ [CHR 0x27] @ ''_id'' @ [CHR 0x27] @ '')''"

definition coerce_query_id :: "env \<Rightarrow> jsval \<Rightarrow> error + jsval" where
  "coerce_query_id e q =
     (case q of
        VNull \<Rightarrow> Inl (TypeError (reading_id_of ''null''))
      | VUndefined \<Rightarrow> Inl (TypeError (reading_id_of ''undefined''))
      | VObj kvs \<Rightarrow>
          (case obj_get kvs ''_id'' of
             VStr s \<Rightarrow>
               (if s \<noteq> [] then
                  (case ObjectId_new e (VStr s) of
                     Inl m \<Rightarrow> Inl (IdentifierCoercionError m)
                   | Inr b \<Rightarrow> Inr (VObj (obj_set kvs ''_id'' (VOid b))))
                else Inr q)
           | _ \<Rightarrow> Inr q)
      | _ \<Rightarrow> Inr q)"

text \<open>JavaScript truthiness, for \<^verbatim>\<open>sort && ...\<close>.\<close>

fun truthy :: "jsval \<Rightarrow> bool" where
  "truthy VUndefined = False"
| "truthy VNull = False"
| "truthy (VBool b) = b"
| "truthy (VNum n) = (n \<noteq> 0)"
| "truthy (VStr s) = (s \<noteq> [])"
| "truthy _ = True"

text \<open>
  \<^verbatim>\<open>Object.keys(v).length\<close>, for a value that is not \<^verbatim>\<open>null\<close> or
  \<^verbatim>\<open>undefined\<close>.  An identifier or a date never passes the constructor test that
  follows, so the count given for them here is never used.
\<close>

fun object_keys_length :: "jsval \<Rightarrow> nat" where
  "object_keys_length (VObj kvs) = length kvs"
| "object_keys_length (VArr xs) = length xs"
| "object_keys_length (VStr s) = length s"
| "object_keys_length _ = 0"

text \<open>
  \<^verbatim>\<open>v.constructor === Object\<close>, for a value that is not \<^verbatim>\<open>null\<close> or
  \<^verbatim>\<open>undefined\<close>.  On a plain object the read finds \<^verbatim>\<open>Object\<close> on the
  prototype unless the object has a key of its own named \<^verbatim>\<open>constructor\<close>, and
  then it finds that key's value.  The constructor of an array, a string, a number, a
  boolean, an identifier, a date or a function is not \<^verbatim>\<open>Object\<close>; that of
  \<^verbatim>\<open>Object.prototype\<close> is.
\<close>

fun constructor_is_Object :: "jsval \<Rightarrow> bool" where
  "constructor_is_Object (VObj kvs) = (obj_get kvs ''constructor'' = VProto ''constructor'')"
| "constructor_is_Object (VProto k) = (k = ''__proto__'')"
| "constructor_is_Object _ = False"

text \<open>Line 183: \<^verbatim>\<open>options.sort && EJSON.parse(options.sort)\<close>.\<close>

definition parse_sort :: "env \<Rightarrow> string option \<Rightarrow> error + jsval" where
  "parse_sort e s =
     (case s of
        None \<Rightarrow> Inr VUndefined
      | Some t \<Rightarrow>
          (if t = [] then Inr (VStr [])
           else (case EJSON_parse e t of Inl m \<Rightarrow> Inl (ParseError m) | Inr v \<Rightarrow> Inr v)))"

text \<open>Lines 184--192: which of the three options reach the cursor.\<close>

definition applied_skip :: "int option \<Rightarrow> int option" where
  "applied_skip s = (case s of None \<Rightarrow> None | Some n \<Rightarrow> if n > 0 then Some n else None)"

definition applied_limit :: "int option \<Rightarrow> int option" where
  "applied_limit l = (case l of None \<Rightarrow> None | Some n \<Rightarrow> if n > 0 then Some n else None)"

definition applied_sort :: "jsval \<Rightarrow> jsval option" where
  "applied_sort v =
     (if truthy v \<and> object_keys_length v \<noteq> 0 \<and> constructor_is_Object v then Some v else None)"

section \<open>The whole-batch operations\<close>

definition error_record :: "error \<Rightarrow> jsval" where
  "error_record e = VObj [(''error'', VStr (message e))]"

text \<open>
  The \<^verbatim>\<open>catch\<close> of the whole-batch branches (lines 137--143, 155--161, 196--202,
  327--333).
\<close>

definition catch_batch :: "bool \<Rightarrow> jsval list attempt \<Rightarrow> jsval list attempt" where
  "catch_batch cof r =
     (case r of
        (Inl e, h) \<Rightarrow> if cof then (Inr [error_record e], h) else (Inl e, h)
      | (Inr v, h) \<Rightarrow> (Inr v, h))"

text \<open>Lines 124--136, the body of the \<^verbatim>\<open>try\<close> of aggregate.\<close>

definition aggregate_try :: "env \<Rightarrow> parameters \<Rightarrow> jsval list attempt" where
  "aggregate_try e p =
     (case EJSON_parse e (query p) of
        Inl m \<Rightarrow> (Inl (ParseError m), [])
      | Inr q \<Rightarrow>
          (case coerce_query_id e q of
             Inl err \<Rightarrow> (Inl err, [])
           | Inr q' \<Rightarrow>
               (case aggregate_toArray e [] (collection p) q' of
                  Inl m \<Rightarrow> (Inl (DatabaseError m), [Aggregate (collection p) q'])
                | Inr docs \<Rightarrow> (Inr docs, [Aggregate (collection p) q']))))"

text \<open>Lines 150--154: the parsed query goes to \<^verbatim>\<open>deleteMany\<close> as it is.\<close>

definition delete_try :: "env \<Rightarrow> parameters \<Rightarrow> jsval list attempt" where
  "delete_try e p =
     (case EJSON_parse e (query p) of
        Inl m \<Rightarrow> (Inl (ParseError m), [])
      | Inr q \<Rightarrow>
          (case deleteMany e [] (collection p) q of
             Inl m \<Rightarrow> (Inl (DatabaseError m), [DeleteMany (collection p) q])
           | Inr deletedCount \<Rightarrow>
               (Inr [VObj [(''deletedCount'', deletedCount)]], [DeleteMany (collection p) q])))"

text \<open>Lines 168--195.\<close>

definition find_try :: "env \<Rightarrow> parameters \<Rightarrow> jsval list attempt" where
  "find_try e p =
     (case EJSON_parse e (query p) of
        Inl m \<Rightarrow> (Inl (ParseError m), [])
      | Inr q \<Rightarrow>
          (case coerce_query_id e q of
             Inl err \<Rightarrow> (Inl err, [])
           | Inr q' \<Rightarrow>
               (case parse_sort e (opt_sort (options p)) of
                  Inl err \<Rightarrow> (Inl err, [])
                | Inr sortSpec \<Rightarrow>
                    (let sk = applied_skip (opt_skip (options p));
                         li = applied_limit (opt_limit (options p));
                         so = applied_sort sortSpec
                     in (case find_toArray e [] (collection p) q' sk li so of
                           Inl m \<Rightarrow> (Inl (DatabaseError m), [Find (collection p) q' sk li so])
                         | Inr docs \<Rightarrow> (Inr docs, [Find (collection p) q' sk li so]))))))"

text \<open>
  Lines 321--326.  \<^verbatim>\<open>Object.keys\<close> lists the integer keys of
  \<^verbatim>\<open>insertedIds\<close> in ascending order; the record pushed for key \<open>i\<close> is the
  spread of \<^verbatim>\<open>insertItems[i]\<close> (nothing when there is no such item) with
  \<^verbatim>\<open>id\<close> set to \<^verbatim>\<open>insertedIds[i]\<close>.
\<close>

definition inserted_keys :: "(nat \<times> jsval) list \<Rightarrow> nat list" where
  "inserted_keys ids = sort (remdups (map fst ids))"

definition inserted_record :: "document list \<Rightarrow> (nat \<times> jsval) list \<Rightarrow> nat \<Rightarrow> jsval" where
  "inserted_record docs ids i =
     VObj (obj_set (if i < length docs then docs ! i else []) ''id''
             (case map_of ids i of None \<Rightarrow> VUndefined | Some v \<Rightarrow> v))"

text \<open>Lines 305--326.\<close>

definition insert_try :: "env \<Rightarrow> parameters \<Rightarrow> jsval list attempt" where
  "insert_try e p =
     (case prepareItems e (inputData p) (prepareFields e (fieldsParam p)) '''' (useDotNotation p)
             (prepareFields e (dateFields p)) (prepareFields e (oidFields p)) of
        Inl m \<Rightarrow> (Inl (NormalizerError m), [])
      | Inr insertItems \<Rightarrow>
          (case insertMany e [] (collection p) insertItems of
             Inl m \<Rightarrow> (Inl (DatabaseError m), [InsertMany (collection p) insertItems])
           | Inr (docs, insertedIds) \<Rightarrow>
               (Inr (map (inserted_record docs insertedIds) (inserted_keys insertedIds)),
                [InsertMany (collection p) insertItems])))"

section \<open>The per-item operations\<close>

text \<open>
  The branches of \<^verbatim>\<open>findOneAndReplace\<close> (lines 208--250),
  \<^verbatim>\<open>findOneAndUpdate\<close> (256--298) and \<^verbatim>\<open>update\<close> (339--381) are the same
  text but for the verb and for the body: the replacement is the item, the two updates
  wrap it in \<^verbatim>\<open>$set\<close>.
\<close>

datatype item_verb = VerbFindOneAndReplace | VerbFindOneAndUpdate | VerbUpdateOne

fun verb_body :: "item_verb \<Rightarrow> document \<Rightarrow> jsval" where
  "verb_body VerbFindOneAndReplace item = VObj item"
| "verb_body VerbFindOneAndUpdate item = VObj [(''$set'', VObj item)]"
| "verb_body VerbUpdateOne item = VObj [(''$set'', VObj item)]"

fun verb_call :: "item_verb \<Rightarrow> string \<Rightarrow> document \<Rightarrow> jsval \<Rightarrow> bool \<Rightarrow> db_call" where
  "verb_call VerbFindOneAndReplace c f b u = FindOneAndReplace c f b u"
| "verb_call VerbFindOneAndUpdate c f b u = FindOneAndUpdate c f b u"
| "verb_call VerbUpdateOne c f b u = UpdateOne c f b u"

fun verb_run :: "env \<Rightarrow> item_verb \<Rightarrow> db_call list \<Rightarrow> string \<Rightarrow> document \<Rightarrow> jsval \<Rightarrow> bool
                  \<Rightarrow> string option" where
  "verb_run e VerbFindOneAndReplace h c f b u = findOneAndReplace e h c f b u"
| "verb_run e VerbFindOneAndUpdate h c f b u = findOneAndUpdate e h c f b u"
| "verb_run e VerbUpdateOne h c f b u = updateOne e h c f b u"

text \<open>
  \<^verbatim>\<open>String.prototype.trim\<close> removes, at both ends, every code point that
  ECMAScript calls WhiteSpace or LineTerminator: U+0009 to U+000D, U+0020, U+00A0,
  U+1680, U+2000 to U+200A, U+2028, U+2029, U+202F, U+205F, U+3000 and U+FEFF.
  \<open>white_space\<close> lists their UTF-8 encodings, in that order (\<open>utf8\<close> gives the
  bytes of a code point, as numbers).
\<close>

definition white_space_code_points :: "nat list" where
  "white_space_code_points =
     [0x0009, 0x000A, 0x000B, 0x000C, 0x000D, 0x0020, 0x00A0, 0x1680,
      0x2000, 0x2001, 0x2002, 0x2003, 0x2004, 0x2005, 0x2006, 0x2007, 0x2008, 0x2009, 0x200A,
      0x2028, 0x2029, 0x202F, 0x205F, 0x3000, 0xFEFF]"

definition utf8 :: "nat \<Rightarrow> nat list" where
  "utf8 n =
     (if n < 0x80 then [n]
      else if n < 0x800 then [0xC0 + n div 0x40, 0x80 + n mod 0x40]
      else if n < 0x10000 then
        [0xE0 + n div 0x1000, 0x80 + n div 0x40 mod 0x40, 0x80 + n mod 0x40]
      else
        [0xF0 + n div 0x40000, 0x80 + n div 0x1000 mod 0x40,
         0x80 + n div 0x40 mod 0x40, 0x80 + n mod 0x40])"

definition white_space :: "string list" where
  "white_space =
     [[CHR 0x09], [CHR 0x0A], [CHR 0x0B], [CHR 0x0C], [CHR 0x0D], [CHR 0x20],
      [CHR 0xC2, CHR 0xA0], [CHR 0xE1, CHR 0x9A, CHR 0x80],
      [CHR 0xE2, CHR 0x80, CHR 0x80], [CHR 0xE2, CHR 0x80, CHR 0x81],
      [CHR 0xE2, CHR 0x80, CHR 0x82], [CHR 0xE2, CHR 0x80, CHR 0x83],
      [CHR 0xE2, CHR 0x80, CHR 0x84], [CHR 0xE2, CHR 0x80, CHR 0x85],
      [CHR 0xE2, CHR 0x80, CHR 0x86], [CHR 0xE2, CHR 0x80, CHR 0x87],
      [CHR 0xE2, CHR 0x80, CHR 0x88], [CHR 0xE2, CHR 0x80, CHR 0x89],
      [CHR 0xE2, CHR 0x80, CHR 0x8A], [CHR 0xE2, CHR 0x80, CHR 0xA8],
      [CHR 0xE2, CHR 0x80, CHR 0xA9], [CHR 0xE2, CHR 0x80, CHR 0xAF],
      [CHR 0xE2, CHR 0x81, CHR 0x9F], [CHR 0xE3, CHR 0x80, CHR 0x80],
      [CHR 0xEF, CHR 0xBB, CHR 0xBF]]"

text \<open>
  \<open>strip ws n s\<close> drops \<open>n\<close> bytes of \<open>s\<close> and then every byte sequence of
  \<open>ws\<close> that the rest begins with, one after the other.  Trimming strips the white
  space from the front and, on the reversed string, from the back.
\<close>

fun strip :: "string list \<Rightarrow> nat \<Rightarrow> string \<Rightarrow> string" where
  "strip ws n [] = []"
| "strip ws (Suc n) (c # s) = strip ws n s"
| "strip ws 0 (c # s) =
     (case find (\<lambda>w. w \<noteq> [] \<and> take (length w) (c # s) = w) ws of
        None \<Rightarrow> c # s
      | Some w \<Rightarrow> strip ws (length w - 1) s)"

definition trim :: "string \<Rightarrow> string" where
  "trim s = rev (strip (map rev white_space) 0 (rev (strip white_space 0 s)))"

text \<open>
  Lines 232--236 (280--284, 363--367): the filter, and the item as the deletion leaves
  it.  When the constructor throws, the deletion has not run.
\<close>

definition build_filter :: "env \<Rightarrow> string \<Rightarrow> document \<Rightarrow> error + document \<times> document" where
  "build_filter e updateKey item =
     (if updateKey = ''_id'' then
        (case ObjectId_new e (obj_get item updateKey) of
           Inl m \<Rightarrow> Inl (IdentifierCoercionError m)
         | Inr b \<Rightarrow> Inr ([(updateKey, VOid b)], obj_delete item ''_id''))
      else Inr ([(updateKey, obj_get item updateKey)], item))"

text \<open>The \<^verbatim>\<open>try\<close> of one item: the item as the body leaves it, or the error and the item at the throw.\<close>

definition item_try :: "env \<Rightarrow> item_verb \<Rightarrow> string \<Rightarrow> string \<Rightarrow> bool \<Rightarrow> db_call list \<Rightarrow> document
                          \<Rightarrow> (error \<times> document + document) \<times> db_call list" where
  "item_try e verb coll updateKey ups h item =
     (case build_filter e updateKey item of
        Inl err \<Rightarrow> (Inl (err, item), h)
      | Inr (flt, item') \<Rightarrow>
          (case verb_run e verb h coll flt (verb_body verb item') ups of
             Some m \<Rightarrow> (Inl (DatabaseError m, item'),
                        h @ [verb_call verb coll flt (verb_body verb item') ups])
           | None \<Rightarrow> (Inr item', h @ [verb_call verb coll flt (verb_body verb item') ups])))"

text \<open>
  One turn of the loop with its \<^verbatim>\<open>catch\<close>: \<^verbatim>\<open>item.json = { error: message }\<close>
  and on to the next item, or the error thrown again.
\<close>

definition item_step :: "env \<Rightarrow> bool \<Rightarrow> item_verb \<Rightarrow> string \<Rightarrow> string \<Rightarrow> bool \<Rightarrow> db_call list \<Rightarrow> document
                           \<Rightarrow> document attempt" where
  "item_step e cof verb coll updateKey ups h item =
     (case item_try e verb coll updateKey ups h item of
        (Inl (err, item'), h') \<Rightarrow>
          (if cof then (Inr (obj_set item' ''json'' (error_record err)), h') else (Inl err, h'))
      | (Inr item', h') \<Rightarrow> (Inr item', h'))"

fun item_loop :: "env \<Rightarrow> bool \<Rightarrow> item_verb \<Rightarrow> string \<Rightarrow> string \<Rightarrow> bool \<Rightarrow> db_call list \<Rightarrow> document list
                    \<Rightarrow> document list attempt" where
  "item_loop e cof verb coll updateKey ups h [] = (Inr [], h)"
| "item_loop e cof verb coll updateKey ups h (item # rest) =
     (case item_step e cof verb coll updateKey ups h item of
        (Inl err, h') \<Rightarrow> (Inl err, h')
      | (Inr item', h') \<Rightarrow>
          (case item_loop e cof verb coll updateKey ups h' rest of
             (Inl err, h'') \<Rightarrow> (Inl err, h'')
           | (Inr out, h'') \<Rightarrow> (Inr (item' # out), h'')))"

text \<open>
  A per-item branch: the normalizer runs outside every \<^verbatim>\<open>try\<close>, then the loop;
  the response data is the array of the items.
\<close>

definition per_item :: "env \<Rightarrow> parameters \<Rightarrow> item_verb \<Rightarrow> jsval list attempt" where
  "per_item e p verb =
     (case prepareItems e (inputData p) (prepareFields e (fieldsParam p)) (trim (updateKeyParam p))
             (useDotNotation p) (prepareFields e (dateFields p)) (prepareFields e (oidFields p)) of
        Inl m \<Rightarrow> (Inl (NormalizerError m), [])
      | Inr updateItems \<Rightarrow>
          (case item_loop e (continueOnFail p) verb (collection p) (trim (updateKeyParam p))
                  (upsert p) [] updateItems of
             (Inl err, h) \<Rightarrow> (Inl err, h)
           | (Inr out, h) \<Rightarrow> (Inr (map VObj out), h)))"

section \<open>The dispatch\<close>

definition unsupported_message :: "string \<Rightarrow> string" where
  "unsupported_message op = ''The operation '' @ [CHR 0x22] @ op @ [CHR 0x22] @ '' is not supported!''"

text \<open>Lines 118--392: the chain of comparisons on the operation name.\<close>

definition dispatch :: "env \<Rightarrow> parameters \<Rightarrow> jsval list attempt" where
  "dispatch e p =
     (if operation p = ''aggregate'' then catch_batch (continueOnFail p) (aggregate_try e p)
      else if operation p = ''delete'' then catch_batch (continueOnFail p) (delete_try e p)
      else if operation p = ''find'' then catch_batch (continueOnFail p) (find_try e p)
      else if operation p = ''findOneAndReplace'' then per_item e p VerbFindOneAndReplace
      else if operation p = ''findOneAndUpdate'' then per_item e p VerbFindOneAndUpdate
      else if operation p = ''insert'' then catch_batch (continueOnFail p) (insert_try e p)
      else if operation p = ''update'' then per_item e p VerbUpdateOne
      else if continueOnFail p
        then (Inr [error_record (NodeOperationError (unsupported_message (operation p)))], [])
      else (Inl (NodeOperationError (unsupported_message (operation p))), []))"

text \<open>
  Lines 105--394, from the connected client to \<^verbatim>\<open>await client.close()\<close>: the
  statement stands after the chain, so an error thrown out of the chain leaves the
  function before it.  The outcome is the response data as line 396 hands it to
  \<^verbatim>\<open>stringifyObjectIDs\<close>.
\<close>

definition execute :: "env \<Rightarrow> parameters \<Rightarrow> run" where
  "execute e p =
     (case dispatch e p of
        (Inl err, h) \<Rightarrow> \<lparr>outcome = Inl err, calls = h, closed = 0\<rparr>
      | (Inr responseData, h) \<Rightarrow> \<lparr>outcome = Inr responseData, calls = h, closed = 1\<rparr>)"

section \<open>Reading a run\<close>

text \<open>The query, filter or pipeline a whole-batch verb was called with.\<close>

fun call_query :: "db_call \<Rightarrow> jsval option" where
  "call_query (Aggregate c q) = Some q"
| "call_query (DeleteMany c q) = Some q"
| "call_query (Find c q sk li so) = Some q"
| "call_query _ = None"

text \<open>The filter and the body a per-item verb was called with.\<close>

fun call_filter :: "db_call \<Rightarrow> document" where
  "call_filter (FindOneAndReplace c f b u) = f"
| "call_filter (FindOneAndUpdate c f b u) = f"
| "call_filter (UpdateOne c f b u) = f"
| "call_filter _ = []"

fun call_body :: "db_call \<Rightarrow> jsval" where
  "call_body (FindOneAndReplace c f b u) = b"
| "call_body (FindOneAndUpdate c f b u) = b"
| "call_body (UpdateOne c f b u) = b"
| "call_body _ = VUndefined"

text \<open>The body of the \<^verbatim>\<open>try\<close> of a whole-batch operation, by operation name.\<close>

definition whole_batch_try :: "env \<Rightarrow> parameters \<Rightarrow> jsval list attempt" where
  "whole_batch_try e p =
     (if operation p = ''aggregate'' then aggregate_try e p
      else if operation p = ''delete'' then delete_try e p
      else if operation p = ''find'' then find_try e p
      else insert_try e p)"

text \<open>The verb of a per-item operation, by operation name.\<close>

definition per_item_verb :: "string \<Rightarrow> item_verb option" where
  "per_item_verb op =
     (if op = ''findOneAndReplace'' then Some VerbFindOneAndReplace
      else if op = ''findOneAndUpdate'' then Some VerbFindOneAndUpdate
      else if op = ''update'' then Some VerbUpdateOne
      else None)"

text \<open>The normalized items of a per-item operation (lines 221--228, 269--276, 352--359).\<close>

definition updateItems :: "env \<Rightarrow> parameters \<Rightarrow> string + document list" where
  "updateItems e p =
     prepareItems e (inputData p) (prepareFields e (fieldsParam p)) (trim (updateKeyParam p))
       (useDotNotation p) (prepareFields e (dateFields p)) (prepareFields e (oidFields p))"

text \<open>The normalized items of the insert operation (line 314).\<close>

definition insertItems :: "env \<Rightarrow> parameters \<Rightarrow> string + document list" where
  "insertItems e p =
     prepareItems e (inputData p) (prepareFields e (fieldsParam p)) [] (useDotNotation p)
       (prepareFields e (dateFields p)) (prepareFields e (oidFields p))"

text \<open>
  The call the loop makes for an item: none when its filter cannot be built.  The calls
  for a list of items, when every item is tried.
\<close>

definition item_call :: "env \<Rightarrow> item_verb \<Rightarrow> string \<Rightarrow> string \<Rightarrow> bool \<Rightarrow> document \<Rightarrow> db_call list" where
  "item_call e verb coll updateKey ups item =
     (case build_filter e updateKey item of
        Inl err \<Rightarrow> []
      | Inr (flt, item') \<Rightarrow> [verb_call verb coll flt (verb_body verb item') ups])"

definition item_calls :: "env \<Rightarrow> item_verb \<Rightarrow> string \<Rightarrow> string \<Rightarrow> bool \<Rightarrow> document list \<Rightarrow> db_call list" where
  "item_calls e verb coll updateKey ups its = concat (map (item_call e verb coll updateKey ups) its)"

section \<open>Identifiers and their string form\<close>

text \<open>
  Modelled from the spec: the \<^verbatim>\<open>ObjectId\<close> class of the driver and
  \<^verbatim>\<open>stringifyObjectIDs\<close> of \<^verbatim>\<open>GenericFunctions\<close> are not in the sources.  The
  glossary calls the canonical document-identifier type ``the database's native
  12-byte/24-hex-character unique identifier type, distinct from a plain string'':
  coercing a string reads twenty-four hexadecimal digits, of either case, as twelve
  bytes and fails on anything else; the string form of an identifier is the driver's,
  which writes the twelve bytes with the digits \<^verbatim>\<open>0-9a-f\<close>.
\<close>

definition hex_digits :: "(char \<times> nat) list" where
  "hex_digits =
     [(CHR ''0'', 0), (CHR ''1'', 1), (CHR ''2'', 2), (CHR ''3'', 3), (CHR ''4'', 4),
      (CHR ''5'', 5), (CHR ''6'', 6), (CHR ''7'', 7), (CHR ''8'', 8), (CHR ''9'', 9),
      (CHR ''a'', 10), (CHR ''b'', 11), (CHR ''c'', 12), (CHR ''d'', 13), (CHR ''e'', 14),
      (CHR ''f'', 15),
      (CHR ''A'', 10), (CHR ''B'', 11), (CHR ''C'', 12), (CHR ''D'', 13), (CHR ''E'', 14),
      (CHR ''F'', 15)]"

definition hex_value :: "char \<Rightarrow> nat option" where
  "hex_value c = map_of hex_digits c"

definition is_hex :: "char \<Rightarrow> bool" where
  "is_hex c = (hex_value c \<noteq> None)"

definition hex_char :: "nat \<Rightarrow> char" where
  "hex_char n = ''0123456789abcdef'' ! (n mod 16)"

definition lowercase :: "char \<Rightarrow> char" where
  "lowercase c =
     (case map_of (zip ''ABCDEFGHIJKLMNOPQRSTUVWXYZ'' ''abcdefghijklmnopqrstuvwxyz'') c of
        None \<Rightarrow> c
      | Some l \<Rightarrow> l)"

fun parse_hex_bytes :: "string \<Rightarrow> 8 word list option" where
  "parse_hex_bytes [] = Some []"
| "parse_hex_bytes [c] = None"
| "parse_hex_bytes (c # d # rest) =
     (case hex_value c of
        None \<Rightarrow> None
      | Some x \<Rightarrow>
          (case hex_value d of
             None \<Rightarrow> None
           | Some y \<Rightarrow>
               (case parse_hex_bytes rest of
                  None \<Rightarrow> None
                | Some bs \<Rightarrow> Some (of_nat (16 * x + y) # bs))))"

text \<open>
  Modelled from the spec: identifier coercion of a string, which succeeds on a valid
  24-hex string and is an error on any other string (section 7,
  IdentifierCoercionError).
\<close>

definition ObjectId_fromString :: "string \<Rightarrow> string + 8 word list" where
  "ObjectId_fromString s =
     (if length s = 24 then
        (case parse_hex_bytes s of
           None \<Rightarrow> Inl ''input must be a 24 character hex string''
         | Some bs \<Rightarrow> Inr bs)
      else Inl ''input must be a 24 character hex string'')"

text \<open>
  Modelled from the spec: the string form of an identifier, two digits for each byte.
\<close>

definition toHexString :: "8 word list \<Rightarrow> string" where
  "toHexString bs = concat (map (\<lambda>b. [hex_char (unat b div 16), hex_char (unat b mod 16)]) bs)"

text \<open>
  Modelled from the spec: \<^verbatim>\<open>stringifyObjectIDs\<close> is imported from
  \<^verbatim>\<open>GenericFunctions\<close>, which is not in the sources.  Section 4.5: the output is
  the ``same structure, with every value identified as the canonical
  document-identifier type rewritten to its string form, recursively, including inside
  nested mappings and sequences''.
\<close>

fun stringifyObjectIDs :: "jsval \<Rightarrow> jsval" where
  "stringifyObjectIDs (VOid b) = VStr (toHexString b)"
| "stringifyObjectIDs (VArr xs) = VArr (map stringifyObjectIDs xs)"
| "stringifyObjectIDs (VObj kvs) = VObj (map (\<lambda>kv. (fst kv, stringifyObjectIDs (snd kv))) kvs)"
| "stringifyObjectIDs VUndefined = VUndefined"
| "stringifyObjectIDs VNull = VNull"
| "stringifyObjectIDs (VBool b) = VBool b"
| "stringifyObjectIDs (VNum n) = VNum n"
| "stringifyObjectIDs (VStr s) = VStr s"
| "stringifyObjectIDs (VDate d) = VDate d"
| "stringifyObjectIDs (VProto k) = VProto k"

section \<open>A sample environment\<close>

text \<open>
  Concrete collaborators, to run the connector on: a parser that knows a handful of
  query strings, the identifier constructor on strings and identifiers, a normalizer
  that copies the \<^verbatim>\<open>json\<close> of every input item, and a database that accepts every
  call, generates the identifiers 0, 1, ... for an insertion and refuses an update or
  a replacement whose filter value is the string \<^verbatim>\<open>locked\<close>.  The sample
  constructor makes one fixed identifier where the driver's makes a fresh one.
\<close>

definition sample_parse :: "string \<Rightarrow> string + jsval" where
  \<open>sample_parse s =
     (if s = ''{"status": "active"}'' then Inr (VObj [(''status'', VStr ''active'')])
      else if s = ''{"_id": "507f1f77bcf86cd799439011"}''
        then Inr (VObj [(''_id'', VStr ''507f1f77bcf86cd799439011'')])
      else if s = ''{"_id": ""}'' then Inr (VObj [(''_id'', VStr [])])
      else if s = ''{"age": -1}'' then Inr (VObj [(''age'', VNum (- 1))])
      else if s = ''{"constructor": 1}'' then Inr (VObj [(''constructor'', VNum 1)])
      else if s = ''[]'' then Inr (VArr [])
      else Inl ''Unexpected token in JSON'')\<close>

definition sample_ObjectId :: "jsval \<Rightarrow> string + 8 word list" where
  "sample_ObjectId v =
     (case v of
        VStr s \<Rightarrow> ObjectId_fromString s
      | VOid b \<Rightarrow> Inr b
      | VUndefined \<Rightarrow> Inr (replicate 12 0xFF)
      | _ \<Rightarrow> Inl ''input must be a 24 character hex string'')"

definition sample_prepareItems :: "jsval list \<Rightarrow> string list \<Rightarrow> string \<Rightarrow> bool \<Rightarrow> string list
                                     \<Rightarrow> string list \<Rightarrow> string + document list" where
  "sample_prepareItems its fs k dot ds os =
     Inr (map (\<lambda>it. case it of
                      VObj kvs \<Rightarrow> (case obj_get kvs ''json'' of VObj d \<Rightarrow> d | _ \<Rightarrow> [])
                    | _ \<Rightarrow> []) its)"

definition sample_ids :: "nat \<Rightarrow> (nat \<times> jsval) list" where
  "sample_ids n = map (\<lambda>i. (i, VOid (replicate 11 0 @ [of_nat i]))) [0..<n]"



definition sample_write :: "db_call list \<Rightarrow> string \<Rightarrow> document \<Rightarrow> jsval \<Rightarrow> bool \<Rightarrow> string option" where
  "sample_write h c f b u =
     (if list_ex (\<lambda>kv. snd kv = VStr ''locked'') f then Some ''document is locked'' else None)"

definition sample_env :: env where
  "sample_env =
     \<lparr> EJSON_parse = sample_parse,
       ObjectId_new = sample_ObjectId,
       prepareFields = (\<lambda>s. []),
       prepareItems = sample_prepareItems,
       aggregate_toArray = (\<lambda>h c q. Inr []),
       deleteMany = (\<lambda>h c q. Inr (VNum 0)),
       find_toArray = (\<lambda>h c q sk li so. Inr []),
       insertMany = (\<lambda>h c docs. Inr (docs, sample_ids (length docs))),
       findOneAndReplace = sample_write,
       findOneAndUpdate = sample_write,
       updateOne = sample_write \<rparr>"

definition sample_parameters :: parameters where
  "sample_parameters =
     \<lparr> operation = ''find'',
       collection = ''people'',
       query = [],
       options = \<lparr> opt_limit = None, opt_skip = None, opt_sort = None \<rparr>,
       fieldsParam = [],
       useDotNotation = False,
       dateFields = [],
       oidFields = [],
       updateKeyParam = [],
       upsert = False,
       continueOnFail = False,
       inputData = [] \<rparr>"

section \<open>Basic facts\<close>

lemma map_of_obj_set: "map_of (obj_set kvs k v) k = Some v"
  by (induction kvs) auto

lemma obj_get_obj_set: "obj_get (obj_set kvs k v) k = v"
  by (simp add: obj_get_def map_of_obj_set)

lemma has_key_obj_delete: "\<not> has_key (obj_delete kvs k) k"
  by (induction kvs) (auto simp: obj_delete_def has_key_def)

lemma white_space_utf8: "map (map of_char) white_space = map utf8 white_space_code_points"
  by (simp add: white_space_def white_space_code_points_def utf8_def)

lemma trim_examples:
  "trim '' _id '' = ''_id''"
  "trim ([CHR 0xC2, CHR 0xA0] @ ''_id'' @ [CHR 0xEF, CHR 0xBB, CHR 0xBF, CHR 0xE2, CHR 0x80, CHR 0xA8])
     = ''_id''"
  "trim ''a b'' = ''a b''"
  "trim [CHR 0xC3, CHR 0xA0] = [CHR 0xC3, CHR 0xA0]"
  "trim (''a'' @ [CHR 0xC2, CHR 0xA0] @ ''b'') = ''a'' @ [CHR 0xC2, CHR 0xA0] @ ''b''"
  "trim ([CHR 0x09, CHR 0x20] @ [CHR 0xE3, CHR 0x80, CHR 0x80]) = []"
  "trim [] = []"
  by code_simp+

lemma trim_white_space: "list_all (\<lambda>w. trim (w @ ''_id'' @ w) = ''_id'') white_space"
  by code_simp

lemma calls_execute: "calls (execute e p) = snd (dispatch e p)"
  by (simp add: execute_def split: prod.splits sum.splits)

lemma outcome_execute: "outcome (execute e p) = fst (dispatch e p)"
  by (simp add: execute_def split: prod.splits sum.splits)

lemma snd_catch_batch: "snd (catch_batch cof r) = snd r"
  by (cases r) (auto simp: catch_batch_def split: sum.splits)

lemma fst_catch_batch:
  "fst (catch_batch cof r) =
     (case fst r of Inl err \<Rightarrow> if cof then Inr [error_record err] else Inl err | Inr v \<Rightarrow> Inr v)"
  by (cases r) (auto simp: catch_batch_def split: sum.splits)

lemma dispatch_aggregate:
  "operation p = ''aggregate'' \<Longrightarrow> dispatch e p = catch_batch (continueOnFail p) (aggregate_try e p)"
  by (simp add: dispatch_def)

lemma dispatch_delete:
  "operation p = ''delete'' \<Longrightarrow> dispatch e p = catch_batch (continueOnFail p) (delete_try e p)"
  by (simp add: dispatch_def)

lemma dispatch_find:
  "operation p = ''find'' \<Longrightarrow> dispatch e p = catch_batch (continueOnFail p) (find_try e p)"
  by (simp add: dispatch_def)


lemma dispatch_whole_batch:
  assumes "operation p \<in> set [''aggregate'', ''find'', ''insert'', ''delete'']"
  shows "dispatch e p = catch_batch (continueOnFail p) (whole_batch_try e p)"
proof -
  consider "operation p = ''aggregate''" | "operation p = ''find''"
    | "operation p = ''insert''" | "operation p = ''delete''"
    using assms by auto
  then show ?thesis
    by cases (simp_all add: dispatch_def whole_batch_try_def)
qed

lemma dispatch_per_item:
  assumes "per_item_verb (operation p) = Some verb"
  shows "dispatch e p = per_item e p verb"
proof -
  consider "operation p = ''findOneAndReplace''" "verb = VerbFindOneAndReplace"
    | "operation p = ''findOneAndUpdate''" "verb = VerbFindOneAndUpdate"
    | "operation p = ''update''" "verb = VerbUpdateOne"
    using assms by (auto simp: per_item_verb_def split: if_splits)
  then show ?thesis
    by cases (simp_all add: dispatch_def)
qed

section \<open>The client session\<close>

text \<open>
  The client is closed once when the invocation returns and not at all when it throws:
  \<^verbatim>\<open>client.close()\<close> is one statement after the chain of branches, under no
  \<^verbatim>\<open>finally\<close>.
\<close>

lemma closed_iff_returned:
  "closed (execute e p) = (case outcome (execute e p) of Inl err \<Rightarrow> 0 | Inr r \<Rightarrow> 1)"
  by (simp add: execute_def split: prod.splits sum.splits)

text \<open>
  Claim C1 says that the session is closed exactly once on every exit path, the
  propagated failures included.  Two runs with continue-on-failure off: find on a query
  string that does not parse, and the operation name \<^verbatim>\<open>foo\<close>.  Each throws,
  the parse error and the unsupported-operation error, and the client has not been
  closed.
\<close>

theorem thrown_error_leaves_client_open:
  "outcome (execute sample_env (sample_parameters\<lparr>operation := ''find'', query := ''{status''\<rparr>))
     = Inl (ParseError ''Unexpected token in JSON'')
   \<and> closed (execute sample_env (sample_parameters\<lparr>operation := ''find'', query := ''{status''\<rparr>)) = 0
   \<and> outcome (execute sample_env (sample_parameters\<lparr>operation := ''foo''\<rparr>))
     = Inl (NodeOperationError (unsupported_message ''foo''))
   \<and> closed (execute sample_env (sample_parameters\<lparr>operation := ''foo''\<rparr>)) = 0"
  by code_simp

section \<open>An operation name that is not known\<close>

text \<open>
  Claim C6: for an operation name that is none of aggregate, delete, find,
  findOneAndReplace, findOneAndUpdate, insert and update, no database verb is called;
  with continue-on-failure off the invocation fails with the unsupported-operation
  error, and with continue-on-failure on the response is the single error record that
  names the operation.
\<close>

theorem unsupported_operation:
  assumes "operation p \<notin> set [''aggregate'', ''delete'', ''find'', ''findOneAndReplace'',
             ''findOneAndUpdate'', ''insert'', ''update'']"
  shows "calls (execute e p) = [] \<and>
         (if continueOnFail p
          then outcome (execute e p) =
                 Inr [VObj [(''error'',
                       VStr (''The operation '' @ [CHR 0x22] @ operation p @ [CHR 0x22]
                             @ '' is not supported!''))]]
          else outcome (execute e p) =
                 Inl (NodeOperationError
                       (''The operation '' @ [CHR 0x22] @ operation p @ [CHR 0x22]
                        @ '' is not supported!'')))"
  using assms by (simp add: execute_def dispatch_def error_record_def unsupported_message_def)

theorem unsupported_operation_witness:
  "calls (execute sample_env (sample_parameters\<lparr>operation := ''foo''\<rparr>)) = [] \<and>
   outcome (execute sample_env (sample_parameters\<lparr>operation := ''foo''\<rparr>)) =
     Inl (NodeOperationError
           (''The operation '' @ [CHR 0x22] @ ''foo'' @ [CHR 0x22] @ '' is not supported!'')) \<and>
   calls (execute sample_env (sample_parameters\<lparr>operation := ''foo'', continueOnFail := True\<rparr>)) = [] \<and>
   outcome (execute sample_env (sample_parameters\<lparr>operation := ''foo'', continueOnFail := True\<rparr>)) =
     Inr [VObj [(''error'',
           VStr (''The operation '' @ [CHR 0x22] @ ''foo'' @ [CHR 0x22] @ '' is not supported!''))]]"
  using unsupported_operation [of "sample_parameters\<lparr>operation := ''foo''\<rparr>" sample_env]
        unsupported_operation
          [of "sample_parameters\<lparr>operation := ''foo'', continueOnFail := True\<rparr>" sample_env]
  by (simp add: sample_parameters_def)

section \<open>The whole-batch operations: failures\<close>

text \<open>
  What raises an error inside the \<^verbatim>\<open>try\<close> of a whole-batch branch: a query
  string that does not parse, and a verb that fails.
\<close>

lemma parse_error_raised:
  assumes "operation p \<in> set [''aggregate'', ''find'', ''delete'']"
    and "EJSON_parse e (query p) = Inl m"
  shows "whole_batch_try e p = (Inl (ParseError m), [])"
proof -
  consider "operation p = ''aggregate''" | "operation p = ''find''" | "operation p = ''delete''"
    using assms(1) by auto
  then show ?thesis
    by cases (simp_all add: whole_batch_try_def aggregate_try_def find_try_def delete_try_def assms(2))
qed

lemma delete_error_raised:
  assumes "operation p = ''delete''"
    and "EJSON_parse e (query p) = Inr q"
    and "deleteMany e [] (collection p) q = Inl m"
  shows "whole_batch_try e p = (Inl (DatabaseError m), [DeleteMany (collection p) q])"
  using assms by (simp add: whole_batch_try_def delete_try_def)

lemma insert_error_raised:
  assumes "operation p = ''insert''"
    and "insertItems e p = Inr docs"
    and "insertMany e [] (collection p) docs = Inl m"
  shows "whole_batch_try e p = (Inl (DatabaseError m), [InsertMany (collection p) docs])"
  using assms by (simp add: whole_batch_try_def insert_try_def insertItems_def)

lemma coercion_error_raised:
  assumes "operation p \<in> set [''aggregate'', ''find'']"
    and "EJSON_parse e (query p) = Inr q"
    and "coerce_query_id e q = Inl err"
  shows "whole_batch_try e p = (Inl err, [])"
proof -
  consider "operation p = ''aggregate''" | "operation p = ''find''"
    using assms(1) by auto
  then show ?thesis
    by cases (simp_all add: whole_batch_try_def aggregate_try_def find_try_def assms(2,3))
qed

lemma normalizer_error_raised:
  assumes "operation p = ''insert''"
    and "insertItems e p = Inl m"
  shows "whole_batch_try e p = (Inl (NormalizerError m), [])"
  using assms by (simp add: whole_batch_try_def insert_try_def insertItems_def)

lemma aggregate_error_raised:
  assumes "operation p = ''aggregate''"
    and "EJSON_parse e (query p) = Inr q"
    and "coerce_query_id e q = Inr q'"
    and "aggregate_toArray e [] (collection p) q' = Inl m"
  shows "whole_batch_try e p = (Inl (DatabaseError m), [Aggregate (collection p) q'])"
  using assms by (simp add: whole_batch_try_def aggregate_try_def)

lemma sort_error_raised:
  assumes "operation p = ''find''"
    and "EJSON_parse e (query p) = Inr q"
    and "coerce_query_id e q = Inr q'"
    and "opt_sort (options p) = Some t" and "t \<noteq> []"
    and "EJSON_parse e t = Inl m"
  shows "whole_batch_try e p = (Inl (ParseError m), [])"
  using assms by (simp add: whole_batch_try_def find_try_def parse_sort_def)

lemma find_error_raised:
  assumes "operation p = ''find''"
    and "EJSON_parse e (query p) = Inr q"
    and "coerce_query_id e q = Inr q'"
    and "parse_sort e (opt_sort (options p)) = Inr v"
    and "find_toArray e [] (collection p) q' (applied_skip (opt_skip (options p)))
           (applied_limit (opt_limit (options p))) (applied_sort v) = Inl m"
  shows "\<exists>h. whole_batch_try e p = (Inl (DatabaseError m), h)"
  using assms by (simp add: whole_batch_try_def find_try_def)

lemma null_query_error_raised:
  assumes "operation p \<in> set [''aggregate'', ''find'']"
    and "EJSON_parse e (query p) = Inr VNull"
  shows "whole_batch_try e p = (Inl (TypeError (reading_id_of ''null'')), [])"
  by (rule coercion_error_raised [OF assms]) (simp add: coerce_query_id_def)

lemma undefined_query_error_raised:
  assumes "operation p \<in> set [''aggregate'', ''find'']"
    and "EJSON_parse e (query p) = Inr VUndefined"
  shows "whole_batch_try e p = (Inl (TypeError (reading_id_of ''undefined'')), [])"
  by (rule coercion_error_raised [OF assms]) (simp add: coerce_query_id_def)

lemma identifier_error_raised:
  assumes "operation p \<in> set [''aggregate'', ''find'']"
    and "EJSON_parse e (query p) = Inr (VObj kvs)"
    and "obj_get kvs ''_id'' = VStr s" and "s \<noteq> []"
    and "ObjectId_new e (VStr s) = Inl m"
  shows "whole_batch_try e p = (Inl (IdentifierCoercionError m), [])"
  by (rule coercion_error_raised [OF assms(1,2)]) (simp add: coerce_query_id_def assms(3,4,5))

text \<open>The \<^verbatim>\<open>catch\<close> of a whole-batch branch, on what its \<^verbatim>\<open>try\<close> raised.\<close>

lemma whole_batch_caught:
  assumes "operation p \<in> set [''aggregate'', ''find'', ''insert'', ''delete'']"
    and "whole_batch_try e p = (Inl err, h)"
  shows "outcome (execute e p) =
           (if continueOnFail p then Inr [VObj [(''error'', VStr (message err))]] else Inl err)"
  unfolding outcome_execute dispatch_whole_batch [OF assms(1)] fst_catch_batch assms(2)
  by (simp add: error_record_def)

text \<open>What the \<^verbatim>\<open>try\<close> of each whole-batch branch can raise, and from what.\<close>

lemma coerce_query_id_raises:
  assumes "coerce_query_id e q = Inl err"
  shows "(q = VNull \<and> err = TypeError (reading_id_of ''null'')) \<or>
         (q = VUndefined \<and> err = TypeError (reading_id_of ''undefined'')) \<or>
         (\<exists>kvs s m. q = VObj kvs \<and> obj_get kvs ''_id'' = VStr s \<and> s \<noteq> [] \<and>
            ObjectId_new e (VStr s) = Inl m \<and> err = IdentifierCoercionError m)"
proof (cases q)
  case (VObj kvs)
  show ?thesis
  proof (cases "obj_get kvs ''_id''")
    case (VStr s)
    show ?thesis
    proof (cases "s = []")
      case True
      then show ?thesis using assms VObj VStr by (simp add: coerce_query_id_def)
    next
      case False
      then show ?thesis using assms VObj VStr
        by (cases "ObjectId_new e (VStr s)") (simp_all add: coerce_query_id_def)
    qed
  qed (use assms VObj in \<open>simp_all add: coerce_query_id_def\<close>)
qed (use assms in \<open>simp_all add: coerce_query_id_def\<close>)

lemma aggregate_raises:
  assumes "aggregate_try e p = (Inl err, h)"
  shows "(\<exists>m. EJSON_parse e (query p) = Inl m \<and> err = ParseError m) \<or>
         (\<exists>q. EJSON_parse e (query p) = Inr q \<and> coerce_query_id e q = Inl err) \<or>
         (\<exists>q q' m. EJSON_parse e (query p) = Inr q \<and> coerce_query_id e q = Inr q' \<and>
            aggregate_toArray e [] (collection p) q' = Inl m \<and> err = DatabaseError m)"
proof (cases "EJSON_parse e (query p)")
  case (Inl m)
  then show ?thesis using assms by (simp add: aggregate_try_def)
next
  case (Inr q)
  note q = this
  show ?thesis
  proof (cases "coerce_query_id e q")
    case (Inl err')
    then show ?thesis using assms q by (simp add: aggregate_try_def)
  next
    case (Inr q')
    then show ?thesis using assms q
      by (cases "aggregate_toArray e [] (collection p) q'") (simp_all add: aggregate_try_def)
  qed
qed

lemma find_raises:
  assumes "find_try e p = (Inl err, h)"
  shows "(\<exists>m. EJSON_parse e (query p) = Inl m \<and> err = ParseError m) \<or>
         (\<exists>q. EJSON_parse e (query p) = Inr q \<and> coerce_query_id e q = Inl err) \<or>
         (\<exists>q q' t m. EJSON_parse e (query p) = Inr q \<and> coerce_query_id e q = Inr q' \<and>
            opt_sort (options p) = Some t \<and> t \<noteq> [] \<and> EJSON_parse e t = Inl m \<and> err = ParseError m) \<or>
         (\<exists>q q' v m. EJSON_parse e (query p) = Inr q \<and> coerce_query_id e q = Inr q' \<and>
            parse_sort e (opt_sort (options p)) = Inr v \<and>
            find_toArray e [] (collection p) q' (applied_skip (opt_skip (options p)))
              (applied_limit (opt_limit (options p))) (applied_sort v) = Inl m \<and> err = DatabaseError m)"
proof (cases "EJSON_parse e (query p)")
  case (Inl m)
  then show ?thesis using assms by (simp add: find_try_def)
next
  case (Inr q)
  note q = this
  show ?thesis
  proof (cases "coerce_query_id e q")
    case (Inl err')
    then show ?thesis using assms q by (simp add: find_try_def)
  next
    case (Inr q')
    note q' = this
    show ?thesis
    proof (cases "parse_sort e (opt_sort (options p))")
      case (Inl err')
      then have "err = err'" using assms q q' by (simp add: find_try_def)
      moreover have "\<exists>t m. opt_sort (options p) = Some t \<and> t \<noteq> [] \<and> EJSON_parse e t = Inl m \<and>
                      err' = ParseError m"
        using Inl by (auto simp: parse_sort_def split: option.splits if_splits sum.splits)
      ultimately show ?thesis using q q' by blast
    next
      case (Inr v)
      then show ?thesis using assms q q'
        by (cases "find_toArray e [] (collection p) q' (applied_skip (opt_skip (options p)))
              (applied_limit (opt_limit (options p))) (applied_sort v)") (simp_all add: find_try_def)
    qed
  qed
qed

lemma delete_raises:
  assumes "delete_try e p = (Inl err, h)"
  shows "(\<exists>m. EJSON_parse e (query p) = Inl m \<and> err = ParseError m) \<or>
         (\<exists>q m. EJSON_parse e (query p) = Inr q \<and> deleteMany e [] (collection p) q = Inl m \<and>
            err = DatabaseError m)"
proof (cases "EJSON_parse e (query p)")
  case (Inl m)
  then show ?thesis using assms by (simp add: delete_try_def)
next
  case (Inr q)
  then show ?thesis using assms
    by (cases "deleteMany e [] (collection p) q") (simp_all add: delete_try_def)
qed

lemma insert_raises:
  assumes "insert_try e p = (Inl err, h)"
  shows "(\<exists>m. insertItems e p = Inl m \<and> err = NormalizerError m) \<or>
         (\<exists>docs m. insertItems e p = Inr docs \<and> insertMany e [] (collection p) docs = Inl m \<and>
            err = DatabaseError m)"
proof (cases "insertItems e p")
  case (Inl m)
  then show ?thesis using assms by (simp add: insert_try_def insertItems_def)
next
  case (Inr docs)
  then show ?thesis using assms
    by (cases "insertMany e [] (collection p) docs")
       (auto simp: insert_try_def insertItems_def split: prod.splits)
qed

text \<open>
  Every error that leaves a whole-batch branch comes from one of these: the branches
  rethrow only with continue-on-failure off.
\<close>

lemma whole_batch_errors:
  assumes "operation p \<in> set [''aggregate'', ''find'', ''insert'', ''delete'']"
    and "outcome (execute e p) = Inl err"
  shows "\<not> continueOnFail p \<and>
     ((\<exists>m. operation p \<in> set [''aggregate'', ''find'', ''delete''] \<and>
           EJSON_parse e (query p) = Inl m \<and> err = ParseError m) \<or>
      (\<exists>q. operation p \<in> set [''aggregate'', ''find''] \<and> EJSON_parse e (query p) = Inr q \<and>
           coerce_query_id e q = Inl err) \<or>
      (\<exists>q q' m. operation p = ''aggregate'' \<and> EJSON_parse e (query p) = Inr q \<and>
           coerce_query_id e q = Inr q' \<and>
           aggregate_toArray e [] (collection p) q' = Inl m \<and> err = DatabaseError m) \<or>
      (\<exists>q q' t m. operation p = ''find'' \<and> EJSON_parse e (query p) = Inr q \<and>
           coerce_query_id e q = Inr q' \<and>
           opt_sort (options p) = Some t \<and> t \<noteq> [] \<and> EJSON_parse e t = Inl m \<and>
           err = ParseError m) \<or>
      (\<exists>q q' v m. operation p = ''find'' \<and> EJSON_parse e (query p) = Inr q \<and>
           coerce_query_id e q = Inr q' \<and>
           parse_sort e (opt_sort (options p)) = Inr v \<and>
           find_toArray e [] (collection p) q' (applied_skip (opt_skip (options p)))
             (applied_limit (opt_limit (options p))) (applied_sort v) = Inl m \<and>
           err = DatabaseError m) \<or>
      (\<exists>q m. operation p = ''delete'' \<and> EJSON_parse e (query p) = Inr q \<and>
           deleteMany e [] (collection p) q = Inl m \<and> err = DatabaseError m) \<or>
      (\<exists>m. operation p = ''insert'' \<and> insertItems e p = Inl m \<and> err = NormalizerError m) \<or>
      (\<exists>docs m. operation p = ''insert'' \<and> insertItems e p = Inr docs \<and>
           insertMany e [] (collection p) docs = Inl m \<and> err = DatabaseError m))"
    (is "_ \<and> (?parse \<or> ?coerce \<or> ?aggregate \<or> ?sort \<or> ?find \<or> ?delete \<or> ?normalize \<or> ?insert)")
proof -
  obtain r h where attempt: "whole_batch_try e p = (r, h)"
    by (cases "whole_batch_try e p")
  have out: "(case r of Inl err' \<Rightarrow> if continueOnFail p then Inr [error_record err'] else Inl err'
              | Inr v \<Rightarrow> Inr v) = Inl err"
    using assms(2) unfolding outcome_execute dispatch_whole_batch [OF assms(1)] fst_catch_batch attempt
    by simp
  have cof: "\<not> continueOnFail p" and r: "r = Inl err"
    using out by (cases r; cases "continueOnFail p"; simp)+
  note raised = attempt [unfolded r]
  consider "operation p = ''aggregate''" | "operation p = ''find''"
    | "operation p = ''insert''" | "operation p = ''delete''"
    using assms(1) by auto
  then have "?parse \<or> ?coerce \<or> ?aggregate \<or> ?sort \<or> ?find \<or> ?delete \<or> ?normalize \<or> ?insert"
  proof cases
    case 1
    then have mem: "operation p \<in> set [''aggregate'', ''find'', ''delete'']"
        "operation p \<in> set [''aggregate'', ''find'']"
      by simp_all
    have "aggregate_try e p = (Inl err, h)"
      using raised 1 by (simp add: whole_batch_try_def)
    from aggregate_raises [OF this] have "?parse \<or> ?coerce \<or> ?aggregate"
      using mem 1 by blast
    then show ?thesis by blast
  next
    case 2
    then have mem: "operation p \<in> set [''aggregate'', ''find'', ''delete'']"
        "operation p \<in> set [''aggregate'', ''find'']"
      by simp_all
    have "find_try e p = (Inl err, h)"
      using raised 2 by (simp add: whole_batch_try_def)
    from find_raises [OF this] have "?parse \<or> ?coerce \<or> ?sort \<or> ?find"
      using mem 2 by blast
    then show ?thesis by blast
  next
    case 3
    have "insert_try e p = (Inl err, h)"
      using raised 3 by (simp add: whole_batch_try_def)
    from insert_raises [OF this] have "?normalize \<or> ?insert"
      using 3 by blast
    then show ?thesis by blast
  next
    case 4
    then have mem: "operation p \<in> set [''aggregate'', ''find'', ''delete'']"
      by simp
    have "delete_try e p = (Inl err, h)"
      using raised 4 by (simp add: whole_batch_try_def)
    from delete_raises [OF this] have "?parse \<or> ?delete"
      using mem 4 by blast
    then show ?thesis by blast
  qed
  with cof show ?thesis by blast
qed

text \<open>
  Claim C7: in aggregate, find, insert and delete, the errors raised while the query is
  built or the verb is called: the query string does not parse (aggregate, find,
  delete); the query is \<^verbatim>\<open>null\<close> or \<^verbatim>\<open>undefined\<close>, or its
  \<^verbatim>\<open>_id\<close> is a non-empty string that the \<^verbatim>\<open>ObjectId\<close> constructor
  refuses (aggregate, find); the sort string does not parse (find); the normalizer fails
  (insert); the driver's verb fails (\<^verbatim>\<open>aggregate\<close>, \<^verbatim>\<open>find\<close>,
  \<^verbatim>\<open>deleteMany\<close>, \<^verbatim>\<open>insertMany\<close>).  No other error leaves these
  branches (lemmas \<open>whole_batch_errors\<close> and \<open>coerce_query_id_raises\<close>).  In
  each case, \<open>caught err m\<close>: with continue-on-failure on, the response is the
  one-element sequence that holds \<^verbatim>\<open>{ error: m }\<close>, \<open>m\<close> being the message
  of the error; with continue-on-failure off, the invocation ends with the error
  \<open>err\<close>.
\<close>

theorem whole_batch_failure_policy:
  assumes policy:
      "caught = (\<lambda>err m. outcome (execute e p) =
                   (if continueOnFail p then Inr [VObj [(''error'', VStr m)]] else Inl err))"
    and normalized:
      "normalized = prepareItems e (inputData p) (prepareFields e (fieldsParam p)) []
                      (useDotNotation p) (prepareFields e (dateFields p))
                      (prepareFields e (oidFields p))"
  shows "(operation p \<in> set [''aggregate'', ''find'', ''delete''] \<longrightarrow>
            (\<forall>m. EJSON_parse e (query p) = Inl m \<longrightarrow> caught (ParseError m) m)) \<and>
         (operation p \<in> set [''aggregate'', ''find''] \<longrightarrow>
            (EJSON_parse e (query p) = Inr VNull \<longrightarrow>
               caught (TypeError (reading_id_of ''null'')) (reading_id_of ''null'')) \<and>
            (EJSON_parse e (query p) = Inr VUndefined \<longrightarrow>
               caught (TypeError (reading_id_of ''undefined'')) (reading_id_of ''undefined'')) \<and>
            (\<forall>kvs s m. EJSON_parse e (query p) = Inr (VObj kvs) \<and>
                 obj_get kvs ''_id'' = VStr s \<and> s \<noteq> [] \<and> ObjectId_new e (VStr s) = Inl m \<longrightarrow>
               caught (IdentifierCoercionError m) m)) \<and>
         (operation p = ''aggregate'' \<longrightarrow>
            (\<forall>q q' m. EJSON_parse e (query p) = Inr q \<and> coerce_query_id e q = Inr q' \<and>
                 aggregate_toArray e [] (collection p) q' = Inl m \<longrightarrow>
               caught (DatabaseError m) m)) \<and>
         (operation p = ''find'' \<longrightarrow>
            (\<forall>q q' t m. EJSON_parse e (query p) = Inr q \<and> coerce_query_id e q = Inr q' \<and>
                 opt_sort (options p) = Some t \<and> t \<noteq> [] \<and> EJSON_parse e t = Inl m \<longrightarrow>
               caught (ParseError m) m) \<and>
            (\<forall>q q' v m. EJSON_parse e (query p) = Inr q \<and> coerce_query_id e q = Inr q' \<and>
                 parse_sort e (opt_sort (options p)) = Inr v \<and>
                 find_toArray e [] (collection p) q' (applied_skip (opt_skip (options p)))
                   (applied_limit (opt_limit (options p))) (applied_sort v) = Inl m \<longrightarrow>
               caught (DatabaseError m) m)) \<and>
         (operation p = ''delete'' \<longrightarrow>
            (\<forall>q m. EJSON_parse e (query p) = Inr q \<and> deleteMany e [] (collection p) q = Inl m \<longrightarrow>
               caught (DatabaseError m) m)) \<and>
         (operation p = ''insert'' \<longrightarrow>
            (\<forall>m. normalized = Inl m \<longrightarrow> caught (NormalizerError m) m) \<and>
            (\<forall>docs m. normalized = Inr docs \<and> insertMany e [] (collection p) docs = Inl m \<longrightarrow>
               caught (DatabaseError m) m))"
proof -
  have caught: "caught err (message err)"
    if "operation p \<in> set [''aggregate'', ''find'', ''insert'', ''delete'']"
      and "whole_batch_try e p = (Inl err, h)" for err h
    unfolding policy using whole_batch_caught [OF that] .
  have items: "insertItems e p = normalized"
    unfolding normalized insertItems_def ..
  have 1: "caught (ParseError m) m"
    if "operation p \<in> set [''aggregate'', ''find'', ''delete'']"
      and "EJSON_parse e (query p) = Inl m" for m
    using caught [OF _ parse_error_raised [OF that]] that(1) by auto
  have 2: "caught (TypeError (reading_id_of ''null'')) (reading_id_of ''null'')"
    if "operation p \<in> set [''aggregate'', ''find'']"
      and "EJSON_parse e (query p) = Inr VNull"
    using caught [OF _ null_query_error_raised [OF that]] that(1) by auto
  have undef: "caught (TypeError (reading_id_of ''undefined'')) (reading_id_of ''undefined'')"
    if "operation p \<in> set [''aggregate'', ''find'']"
      and "EJSON_parse e (query p) = Inr VUndefined"
    using caught [OF _ undefined_query_error_raised [OF that]] that(1) by auto
  have 3: "caught (IdentifierCoercionError m) m"
    if "operation p \<in> set [''aggregate'', ''find'']"
      and "EJSON_parse e (query p) = Inr (VObj kvs) \<and>
           obj_get kvs ''_id'' = VStr s \<and> s \<noteq> [] \<and> ObjectId_new e (VStr s) = Inl m" for kvs s m
  proof -
    have "whole_batch_try e p = (Inl (IdentifierCoercionError m), [])"
      using that by (intro identifier_error_raised [where s = s]) blast+
    from caught [OF _ this] that(1) show ?thesis by auto
  qed
  have 4: "caught (DatabaseError m) m"
    if "operation p = ''aggregate''"
      and "EJSON_parse e (query p) = Inr q \<and> coerce_query_id e q = Inr q' \<and>
           aggregate_toArray e [] (collection p) q' = Inl m" for q q' m
  proof -
    have "whole_batch_try e p = (Inl (DatabaseError m), [Aggregate (collection p) q'])"
      using that by (intro aggregate_error_raised [where q = q]) blast+
    from caught [OF _ this] that(1) show ?thesis by auto
  qed
  have 5: "caught (ParseError m) m"
    if "operation p = ''find''"
      and "EJSON_parse e (query p) = Inr q \<and> coerce_query_id e q = Inr q' \<and>
           opt_sort (options p) = Some t \<and> t \<noteq> [] \<and> EJSON_parse e t = Inl m" for q q' t m
  proof -
    have "whole_batch_try e p = (Inl (ParseError m), [])"
      using that by (intro sort_error_raised [where q = q and q' = q' and t = t]) blast+
    from caught [OF _ this] that(1) show ?thesis by auto
  qed
  have 6: "caught (DatabaseError m) m"
    if "operation p = ''find''"
      and "EJSON_parse e (query p) = Inr q \<and> coerce_query_id e q = Inr q' \<and>
           parse_sort e (opt_sort (options p)) = Inr v \<and>
           find_toArray e [] (collection p) q' (applied_skip (opt_skip (options p)))
             (applied_limit (opt_limit (options p))) (applied_sort v) = Inl m" for q q' v m
  proof -
    have "\<exists>h. whole_batch_try e p = (Inl (DatabaseError m), h)"
      using that by (intro find_error_raised [where q = q and q' = q' and v = v]) blast+
    then obtain h where "whole_batch_try e p = (Inl (DatabaseError m), h)"
      by blast
    from caught [OF _ this] that(1) show ?thesis by auto
  qed
  have 7: "caught (DatabaseError m) m"
    if "operation p = ''delete''"
      and "EJSON_parse e (query p) = Inr q \<and> deleteMany e [] (collection p) q = Inl m" for q m
  proof -
    have "whole_batch_try e p = (Inl (DatabaseError m), [DeleteMany (collection p) q])"
      using that by (intro delete_error_raised [where q = q]) blast+
    from caught [OF _ this] that(1) show ?thesis by auto
  qed
  have 8: "caught (NormalizerError m) m"
    if "operation p = ''insert''" and "normalized = Inl m" for m
  proof -
    have "whole_batch_try e p = (Inl (NormalizerError m), [])"
      using that items by (intro normalizer_error_raised) blast+
    from caught [OF _ this] that(1) show ?thesis by auto
  qed
  have 9: "caught (DatabaseError m) m"
    if "operation p = ''insert''"
      and "normalized = Inr docs \<and> insertMany e [] (collection p) docs = Inl m" for docs m
  proof -
    have "whole_batch_try e p = (Inl (DatabaseError m), [InsertMany (collection p) docs])"
      using that items by (intro insert_error_raised) blast+
    from caught [OF _ this] that(1) show ?thesis by auto
  qed
  from 1 2 undef 3 4 5 6 7 8 9 show ?thesis
    by blast
qed

theorem whole_batch_failure_policy_witness:
  \<open>outcome (execute (sample_env\<lparr>aggregate_toArray := (\<lambda>h c q. Inl ''pipeline refused'')\<rparr>)
      (sample_parameters\<lparr>operation := ''aggregate'', query := ''[]'', continueOnFail := True\<rparr>))
     = Inr [VObj [(''error'', VStr ''pipeline refused'')]] \<and>
   outcome (execute (sample_env\<lparr>find_toArray := (\<lambda>h c q sk li so. Inl ''cursor lost'')\<rparr>)
      (sample_parameters\<lparr>operation := ''find'', query := ''{"status": "active"}''\<rparr>))
     = Inl (DatabaseError ''cursor lost'') \<and>
   outcome (execute sample_env
      (sample_parameters\<lparr>operation := ''delete'', query := ''{status'', continueOnFail := True\<rparr>))
     = Inr [VObj [(''error'', VStr ''Unexpected token in JSON'')]] \<and>
   outcome (execute (sample_env\<lparr>insertMany := (\<lambda>h c docs. Inl ''duplicate key'')\<rparr>)
      (sample_parameters\<lparr>operation := ''insert'',
         inputData := [VObj [(''json'', VObj [(''name'', VStr ''a'')])]]\<rparr>))
     = Inl (DatabaseError ''duplicate key'') \<and>
   outcome (execute (sample_env\<lparr>EJSON_parse := (\<lambda>s. Inr (VObj [(''_id'', VStr ''xyz'')]))\<rparr>)
      (sample_parameters\<lparr>operation := ''aggregate'', continueOnFail := True\<rparr>))
     = Inr [VObj [(''error'', VStr ''input must be a 24 character hex string'')]]\<close>
proof -
  let ?e1 = "sample_env\<lparr>aggregate_toArray := (\<lambda>h c q. Inl ''pipeline refused'')\<rparr>"
  let ?p1 = "sample_parameters\<lparr>operation := ''aggregate'', query := ''[]'', continueOnFail := True\<rparr>"
  let ?e2 = "sample_env\<lparr>find_toArray := (\<lambda>h c q sk li so. Inl ''cursor lost'')\<rparr>"
  let ?p2 = \<open>sample_parameters\<lparr>operation := ''find'', query := ''{"status": "active"}''\<rparr>\<close>
  let ?p3 = "sample_parameters\<lparr>operation := ''delete'', query := ''{status'', continueOnFail := True\<rparr>"
  let ?e4 = "sample_env\<lparr>insertMany := (\<lambda>h c docs. Inl ''duplicate key'')\<rparr>"
  let ?p4 = "sample_parameters\<lparr>operation := ''insert'',
         inputData := [VObj [(''json'', VObj [(''name'', VStr ''a'')])]]\<rparr>"
  let ?e5 = "sample_env\<lparr>EJSON_parse := (\<lambda>s. Inr (VObj [(''_id'', VStr ''xyz'')]))\<rparr>"
  let ?p5 = "sample_parameters\<lparr>operation := ''aggregate'', continueOnFail := True\<rparr>"
  let ?q2 = "VObj [(''status'', VStr ''active'')]"
  let ?msg = "''input must be a 24 character hex string''"
  have op1: "operation ?p1 = ''aggregate''" and cof1: "continueOnFail ?p1"
    by simp_all
  have q1: "EJSON_parse ?e1 (query ?p1) = Inr (VArr []) \<and> coerce_query_id ?e1 (VArr []) = Inr (VArr []) \<and>
            aggregate_toArray ?e1 [] (collection ?p1) (VArr []) = Inl ''pipeline refused''"
    by code_simp
  from whole_batch_failure_policy [of _ ?e1 ?p1, OF refl refl, THEN conjunct2, THEN conjunct2, THEN conjunct1, rule_format, OF op1 q1]
  have "outcome (execute ?e1 ?p1) =
          (if continueOnFail ?p1 then Inr [VObj [(''error'', VStr ''pipeline refused'')]]
           else Inl (DatabaseError ''pipeline refused''))"
    .
  then have r1: "outcome (execute ?e1 ?p1) = Inr [VObj [(''error'', VStr ''pipeline refused'')]]"
    using cof1 by simp
  have op2: "operation ?p2 = ''find''" and cof2: "\<not> continueOnFail ?p2"
    by (simp_all add: sample_parameters_def)
  have q2: "EJSON_parse ?e2 (query ?p2) = Inr ?q2 \<and> coerce_query_id ?e2 ?q2 = Inr ?q2 \<and>
            parse_sort ?e2 (opt_sort (options ?p2)) = Inr VUndefined \<and>
            find_toArray ?e2 [] (collection ?p2) ?q2 (applied_skip (opt_skip (options ?p2)))
              (applied_limit (opt_limit (options ?p2))) (applied_sort VUndefined) = Inl ''cursor lost''"
    by code_simp
  from whole_batch_failure_policy [of _ ?e2 ?p2, OF refl refl, THEN conjunct2, THEN conjunct2, THEN conjunct2, THEN conjunct1, THEN mp, OF op2, THEN conjunct2, rule_format, OF q2]
  have "outcome (execute ?e2 ?p2) =
          (if continueOnFail ?p2 then Inr [VObj [(''error'', VStr ''cursor lost'')]]
           else Inl (DatabaseError ''cursor lost''))"
    .
  then have r2: "outcome (execute ?e2 ?p2) = Inl (DatabaseError ''cursor lost'')"
    using cof2 by simp
  have op3: "operation ?p3 \<in> set [''aggregate'', ''find'', ''delete'']" and cof3: "continueOnFail ?p3"
    by simp_all
  have q3: "EJSON_parse sample_env (query ?p3) = Inl ''Unexpected token in JSON''"
    by code_simp
  from whole_batch_failure_policy [of _ sample_env ?p3, OF refl refl, THEN conjunct1, rule_format, OF op3 q3]
  have "outcome (execute sample_env ?p3) =
          (if continueOnFail ?p3 then Inr [VObj [(''error'', VStr ''Unexpected token in JSON'')]]
           else Inl (ParseError ''Unexpected token in JSON''))"
    .
  then have r3: "outcome (execute sample_env ?p3)
                   = Inr [VObj [(''error'', VStr ''Unexpected token in JSON'')]]"
    using cof3 by simp
  have op4: "operation ?p4 = ''insert''" and cof4: "\<not> continueOnFail ?p4"
    by (simp_all add: sample_parameters_def)
  have q4: "prepareItems ?e4 (inputData ?p4) (prepareFields ?e4 (fieldsParam ?p4)) []
              (useDotNotation ?p4) (prepareFields ?e4 (dateFields ?p4))
              (prepareFields ?e4 (oidFields ?p4)) = Inr [[(''name'', VStr ''a'')]] \<and>
            insertMany ?e4 [] (collection ?p4) [[(''name'', VStr ''a'')]] = Inl ''duplicate key''"
    by code_simp
  from whole_batch_failure_policy [of _ ?e4 ?p4, OF refl refl, THEN conjunct2, THEN conjunct2, THEN conjunct2, THEN conjunct2, THEN conjunct2, THEN mp, OF op4, THEN conjunct2, rule_format, OF q4]
  have "outcome (execute ?e4 ?p4) =
          (if continueOnFail ?p4 then Inr [VObj [(''error'', VStr ''duplicate key'')]]
           else Inl (DatabaseError ''duplicate key''))"
    .
  then have r4: "outcome (execute ?e4 ?p4) = Inl (DatabaseError ''duplicate key'')"
    using cof4 by simp
  have op5: "operation ?p5 \<in> set [''aggregate'', ''find'']" and cof5: "continueOnFail ?p5"
    by simp_all
  have q5: "EJSON_parse ?e5 (query ?p5) = Inr (VObj [(''_id'', VStr ''xyz'')]) \<and>
            obj_get [(''_id'', VStr ''xyz'')] ''_id'' = VStr ''xyz'' \<and> ''xyz'' \<noteq> [] \<and>
            ObjectId_new ?e5 (VStr ''xyz'') = Inl ?msg"
    by code_simp
  from whole_batch_failure_policy [of _ ?e5 ?p5, OF refl refl, THEN conjunct2, THEN conjunct1, THEN mp, OF op5, THEN conjunct2, THEN conjunct2, rule_format, OF q5]
  have "outcome (execute ?e5 ?p5) =
          (if continueOnFail ?p5 then Inr [VObj [(''error'', VStr ?msg)]]
           else Inl (IdentifierCoercionError ?msg))"
    .
  then have r5: "outcome (execute ?e5 ?p5) = Inr [VObj [(''error'', VStr ?msg)]]"
    using cof5 by simp
  from r1 r2 r3 r4 r5 show ?thesis
    by blast
qed

section \<open>The identifier of a query\<close>

lemma coerce_query_id_string:
  assumes "obj_get kvs ''_id'' = VStr s" and "s \<noteq> []"
  shows "coerce_query_id e (VObj kvs) =
           (case ObjectId_new e (VStr s) of
              Inl m \<Rightarrow> Inl (IdentifierCoercionError m)
            | Inr b \<Rightarrow> Inr (VObj (obj_set kvs ''_id'' (VOid b))))"
  using assms by (simp add: coerce_query_id_def)

text \<open>The delete branch hands the parsed query to the verb as it is.\<close>

lemma delete_query_as_parsed:
  assumes "operation p = ''delete''" and "EJSON_parse e (query p) = Inr q"
  shows "calls (execute e p) = [DeleteMany (collection p) q]"
  unfolding calls_execute dispatch_delete [OF assms(1)] snd_catch_batch
  using assms(2) by (simp add: delete_try_def split: sum.splits)

text \<open>
  Claim C2 says that in aggregate, find and delete a top-level \<^verbatim>\<open>_id\<close> that is a
  plain string is replaced by an identifier before the verb is called.  Two runs where a
  verb is called with \<^verbatim>\<open>_id\<close> still a string: find on the empty string, which the
  guard \<^verbatim>\<open>queryParameter._id && ...\<close> of line 172 lets through, and delete, whose
  branch (lines 150--152) has no coercion.
\<close>

theorem query_id_left_a_string:
  \<open>calls (execute sample_env (sample_parameters\<lparr>operation := ''find'', query := ''{"_id": ""}''\<rparr>))
     = [Find ''people'' (VObj [(''_id'', VStr [])]) None None None]
   \<and> calls (execute sample_env
        (sample_parameters\<lparr>operation := ''delete'', query := ''{"_id": "507f1f77bcf86cd799439011"}''\<rparr>))
     = [DeleteMany ''people'' (VObj [(''_id'', VStr ''507f1f77bcf86cd799439011'')])]\<close>
  by code_simp

text \<open>
  Claim C2, amended: in aggregate and find, when the query string parses to a mapping
  whose \<^verbatim>\<open>_id\<close> is a non-empty string, every verb that is called receives the
  mapping with \<^verbatim>\<open>_id\<close> replaced by the identifier made from that string; the
  verb is called once when the identifier can be made (and, for find, the sort string
  can be read), and no verb is called when it cannot.
\<close>

theorem query_id_coerced_before_verb:
  assumes "operation p = ''aggregate'' \<or> operation p = ''find''"
    and "EJSON_parse e (query p) = Inr (VObj kvs)"
    and "obj_get kvs ''_id'' = VStr s"
    and "s \<noteq> []"
  shows "(\<forall>c\<in>set (calls (execute e p)). \<exists>b.
            ObjectId_new e (VStr s) = Inr b \<and>
            call_query c = Some (VObj (obj_set kvs ''_id'' (VOid b))) \<and>
            obj_get (obj_set kvs ''_id'' (VOid b)) ''_id'' = VOid b) \<and>
         (\<forall>b. ObjectId_new e (VStr s) = Inr b \<and> operation p = ''aggregate'' \<longrightarrow>
            calls (execute e p) = [Aggregate (collection p) (VObj (obj_set kvs ''_id'' (VOid b)))]) \<and>
         (\<forall>b v. ObjectId_new e (VStr s) = Inr b \<and> operation p = ''find'' \<and>
                parse_sort e (opt_sort (options p)) = Inr v \<longrightarrow>
            (\<exists>sk li so. calls (execute e p) =
               [Find (collection p) (VObj (obj_set kvs ''_id'' (VOid b))) sk li so])) \<and>
         (\<forall>m. ObjectId_new e (VStr s) = Inl m \<longrightarrow> calls (execute e p) = [])"
proof -
  note co = coerce_query_id_string [OF assms(3,4), of e]
  from assms(1) show ?thesis
  proof
    assume op: "operation p = ''aggregate''"
    show ?thesis
      unfolding calls_execute dispatch_aggregate [OF op] snd_catch_batch
      using op assms(2) co
      by (auto simp: aggregate_try_def obj_get_obj_set split: sum.splits)
  next
    assume op: "operation p = ''find''"
    show ?thesis
      unfolding calls_execute dispatch_find [OF op] snd_catch_batch
      using op assms(2) co
      by (auto simp: find_try_def obj_get_obj_set Let_def split: sum.splits)
  qed
qed

theorem query_id_coerced_before_verb_witness:
  \<open>calls (execute sample_env
      (sample_parameters\<lparr>operation := ''find'', query := ''{"_id": "507f1f77bcf86cd799439011"}''\<rparr>))
     = [Find ''people''
          (VObj [(''_id'', VOid [0x50, 0x7f, 0x1f, 0x77, 0xbc, 0xf8, 0x6c, 0xd7, 0x99, 0x43, 0x90, 0x11])])
          None None None]
   \<and> (\<exists>b. ObjectId_new sample_env (VStr ''507f1f77bcf86cd799439011'') = Inr b \<and>
          call_query (Find ''people''
             (VObj [(''_id'', VOid [0x50, 0x7f, 0x1f, 0x77, 0xbc, 0xf8, 0x6c, 0xd7, 0x99, 0x43, 0x90, 0x11])])
             None None None)
            = Some (VObj (obj_set [(''_id'', VStr ''507f1f77bcf86cd799439011'')] ''_id'' (VOid b))))\<close>
proof -
  let ?p = \<open>sample_parameters\<lparr>operation := ''find'', query := ''{"_id": "507f1f77bcf86cd799439011"}''\<rparr>\<close>
  let ?kvs = "[(''_id'', VStr ''507f1f77bcf86cd799439011'')]"
  let ?c = "Find ''people''
          (VObj [(''_id'', VOid [0x50, 0x7f, 0x1f, 0x77, 0xbc, 0xf8, 0x6c, 0xd7, 0x99, 0x43, 0x90, 0x11])])
          None None None"
  have h1: "operation ?p = ''aggregate'' \<or> operation ?p = ''find''"
    by (simp add: sample_parameters_def)
  have h2: "EJSON_parse sample_env (query ?p) = Inr (VObj ?kvs)"
    by code_simp
  have h3: "obj_get ?kvs ''_id'' = VStr ''507f1f77bcf86cd799439011''"
    by (simp add: obj_get_def)
  have h4: "''507f1f77bcf86cd799439011'' \<noteq> []"
    by simp
  have run: "calls (execute sample_env ?p) = [?c]"
    by code_simp
  from query_id_coerced_before_verb [OF h1 h2 h3 h4]
  have "\<forall>c\<in>set (calls (execute sample_env ?p)). \<exists>b.
            ObjectId_new sample_env (VStr ''507f1f77bcf86cd799439011'') = Inr b \<and>
            call_query c = Some (VObj (obj_set ?kvs ''_id'' (VOid b))) \<and>
            obj_get (obj_set ?kvs ''_id'' (VOid b)) ''_id'' = VOid b"
    by blast
  then have "\<exists>b. ObjectId_new sample_env (VStr ''507f1f77bcf86cd799439011'') = Inr b \<and>
            call_query ?c = Some (VObj (obj_set ?kvs ''_id'' (VOid b)))"
    unfolding run by auto
  with run show ?thesis by blast
qed

section \<open>The per-item loop\<close>

lemma item_try_calls:
  "snd (item_try e verb coll k ups h item) = h @ item_call e verb coll k ups item"
  by (simp add: item_try_def item_call_def split: sum.splits prod.splits option.splits)

lemma item_calls_Nil: "item_calls e verb coll k ups [] = []"
  by (simp add: item_calls_def)

lemma item_calls_Cons:
  "item_calls e verb coll k ups (item # its)
     = item_call e verb coll k ups item @ item_calls e verb coll k ups its"
  by (simp add: item_calls_def)

lemma item_step_eq:
  "item_step e cof verb coll k ups h item =
     (case fst (item_try e verb coll k ups h item) of
        Inl (err, d) \<Rightarrow> if cof then Inr (obj_set d ''json'' (error_record err)) else Inl err
      | Inr d \<Rightarrow> Inr d,
      h @ item_call e verb coll k ups item)"
proof -
  obtain r h' where eq: "item_try e verb coll k ups h item = (r, h')"
    by (cases "item_try e verb coll k ups h item")
  have "h' = h @ item_call e verb coll k ups item"
    using item_try_calls [of e verb coll k ups h item] unfolding eq by simp
  then show ?thesis
    unfolding item_step_def eq by (simp split: sum.splits prod.splits)
qed


lemma item_step_ok:
  assumes "fst (item_try e verb coll key ups h item) = Inr d"
  shows "item_step e cof verb coll key ups h item = (Inr d, h @ item_call e verb coll key ups item)"
  unfolding item_step_eq assms by simp

lemma item_step_continue:
  "\<exists>d. item_step e True verb coll k ups h item = (Inr d, h @ item_call e verb coll k ups item)"
  unfolding item_step_eq by (simp split: sum.splits prod.splits)

text \<open>Whatever the loop does, the calls it adds are those of a prefix of the items.\<close>

lemma item_loop_prefix:
  "\<exists>n\<le>length its.
     snd (item_loop e cof verb coll k ups h its) = h @ item_calls e verb coll k ups (take n its)"
proof (induction its arbitrary: h)
  case Nil
  then show ?case by (simp add: item_calls_Nil)
next
  case (Cons item its)
  let ?h' = "h @ item_call e verb coll k ups item"
  obtain r where step: "item_step e cof verb coll k ups h item = (r, ?h')"
    unfolding item_step_eq by blast
  show ?case
  proof (cases r)
    case (Inl err)
    have "snd (item_loop e cof verb coll k ups h (item # its))
            = h @ item_calls e verb coll k ups (take 1 (item # its))"
      using step Inl by (simp add: item_calls_Cons item_calls_Nil)
    then show ?thesis by (intro exI [of _ 1]) simp
  next
    case (Inr d)
    from Cons.IH [of ?h'] obtain n where n: "n \<le> length its"
      "snd (item_loop e cof verb coll k ups ?h' its) = ?h' @ item_calls e verb coll k ups (take n its)"
      by blast
    obtain r2 h2 where rest: "item_loop e cof verb coll k ups ?h' its = (r2, h2)"
      by (cases "item_loop e cof verb coll k ups ?h' its")
    have "snd (item_loop e cof verb coll k ups h (item # its))
            = h @ item_calls e verb coll k ups (take (Suc n) (item # its))"
      using step Inr n(2) rest by (cases r2) (simp_all add: item_calls_Cons)
    then show ?thesis using n(1) by (intro exI [of _ "Suc n"]) simp
  qed
qed

text \<open>With continue-on-failure on, every item is tried and has its place in the output.\<close>

lemma item_loop_continue:
  "\<exists>out. item_loop e True verb coll k ups h its = (Inr out, h @ item_calls e verb coll k ups its) \<and>
         length out = length its \<and>
         (\<forall>i<length its.
            fst (item_step e True verb coll k ups (h @ item_calls e verb coll k ups (take i its)) (its ! i))
              = Inr (out ! i))"
proof (induction its arbitrary: h)
  case Nil
  then show ?case by (simp add: item_calls_Nil)
next
  case (Cons item its)
  let ?h' = "h @ item_call e verb coll k ups item"
  obtain d where step: "item_step e True verb coll k ups h item = (Inr d, ?h')"
    using item_step_continue by blast
  from Cons.IH [of ?h'] obtain out where out:
    "item_loop e True verb coll k ups ?h' its = (Inr out, ?h' @ item_calls e verb coll k ups its)"
    "length out = length its"
    "\<forall>i<length its.
       fst (item_step e True verb coll k ups (?h' @ item_calls e verb coll k ups (take i its)) (its ! i))
         = Inr (out ! i)"
    by blast
  have 1: "item_loop e True verb coll k ups h (item # its)
             = (Inr (d # out), h @ item_calls e verb coll k ups (item # its))"
    using step out(1) by (simp add: item_calls_Cons)
  have 2: "length (d # out) = length (item # its)"
    using out(2) by simp
  have 3: "\<forall>i<length (item # its).
             fst (item_step e True verb coll k ups
                    (h @ item_calls e verb coll k ups (take i (item # its))) ((item # its) ! i))
               = Inr ((d # out) ! i)"
  proof (intro allI impI)
    fix i assume i: "i < length (item # its)"
    show "fst (item_step e True verb coll k ups
                    (h @ item_calls e verb coll k ups (take i (item # its))) ((item # its) ! i))
               = Inr ((d # out) ! i)"
    proof (cases i)
      case 0
      then show ?thesis using step by (simp add: item_calls_Nil)
    next
      case (Suc j)
      then have "j < length its" using i by simp
      then show ?thesis using out(3) Suc by (simp add: item_calls_Cons)
    qed
  qed
  from 1 2 3 show ?case by blast
qed



lemma per_item_run:
  assumes "per_item_verb (operation p) = Some verb" and "updateItems e p = Inr its"
  shows "execute e p =
     (case item_loop e (continueOnFail p) verb (collection p) (trim (updateKeyParam p)) (upsert p) [] its of
        (Inl err, h) \<Rightarrow> \<lparr>outcome = Inl err, calls = h, closed = 0\<rparr>
      | (Inr out, h) \<Rightarrow> \<lparr>outcome = Inr (map VObj out), calls = h, closed = 1\<rparr>)"
proof -
  have "prepareItems e (inputData p) (prepareFields e (fieldsParam p)) (trim (updateKeyParam p))
       (useDotNotation p) (prepareFields e (dateFields p)) (prepareFields e (oidFields p)) = Inr its"
    using assms(2) by (simp add: updateItems_def)
  then show ?thesis
    unfolding execute_def dispatch_per_item [OF assms(1)] per_item_def
    by (simp split: prod.splits sum.splits)
qed

lemma per_item_calls:
  assumes "per_item_verb (operation p) = Some verb" and "updateItems e p = Inr its"
  shows "calls (execute e p) =
           snd (item_loop e (continueOnFail p) verb (collection p) (trim (updateKeyParam p))
                  (upsert p) [] its)"
  unfolding per_item_run [OF assms] by (simp split: prod.splits sum.splits)

text \<open>What makes the try of an item fail: the identifier constructor, or the verb.\<close>

lemma item_try_fails:
  "fst (item_try e verb coll key ups h item) = Inl (err, d) \<longleftrightarrow>
     (build_filter e key item = Inl err \<and> d = item) \<or>
     (\<exists>flt m. build_filter e key item = Inr (flt, d) \<and>
              verb_run e verb h coll flt (verb_body verb d) ups = Some m \<and> err = DatabaseError m)"
  by (auto simp: item_try_def split: sum.splits prod.splits option.splits)

text \<open>When no try can fail, every item is tried, with or without continue-on-failure.\<close>

lemma item_loop_calls_all_ok:
  assumes "\<forall>item\<in>set its. \<forall>h. \<exists>d. fst (item_try e verb coll k ups h item) = Inr d"
  shows "snd (item_loop e cof verb coll k ups h its) = h @ item_calls e verb coll k ups its"
  using assms
proof (induction its arbitrary: h)
  case Nil
  then show ?case by (simp add: item_calls_Nil)
next
  case (Cons item its)
  let ?h' = "h @ item_call e verb coll k ups item"
  have "\<exists>d. fst (item_try e verb coll k ups h item) = Inr d"
    using Cons.prems by simp
  then obtain d where "fst (item_try e verb coll k ups h item) = Inr d"
    by blast
  then have step: "item_step e cof verb coll k ups h item = (Inr d, ?h')"
    by (simp add: item_step_ok)
  have "\<forall>item\<in>set its. \<forall>h. \<exists>d. fst (item_try e verb coll k ups h item) = Inr d"
    using Cons.prems by simp
  then have ih: "snd (item_loop e cof verb coll k ups ?h' its) = ?h' @ item_calls e verb coll k ups its"
    by (rule Cons.IH)
  obtain r2 h2 where rest: "item_loop e cof verb coll k ups ?h' its = (r2, h2)"
    by (cases "item_loop e cof verb coll k ups ?h' its")
  show ?case
    using step ih rest by (cases r2) (simp_all add: item_calls_Cons)
qed

text \<open>
  The calls of a per-item operation are those of the first \<open>n\<close> items, for some
  \<open>n\<close>; of all the items with continue-on-failure on, or when no try can fail.
\<close>

lemma per_item_calls_shape:
  assumes "per_item_verb (operation p) = Some verb" and "updateItems e p = Inr its"
  shows "\<exists>n\<le>length its.
           calls (execute e p) =
             item_calls e verb (collection p) (trim (updateKeyParam p)) (upsert p) (take n its) \<and>
           (continueOnFail p \<longrightarrow> n = length its) \<and>
           ((\<forall>item\<in>set its. \<forall>h. \<exists>d.
                fst (item_try e verb (collection p) (trim (updateKeyParam p)) (upsert p) h item) = Inr d)
              \<longrightarrow> n = length its)"
proof -
  let ?coll = "collection p" and ?key = "trim (updateKeyParam p)" and ?ups = "upsert p"
  let ?ok = "\<forall>item\<in>set its. \<forall>h. \<exists>d. fst (item_try e verb ?coll ?key ?ups h item) = Inr d"
  note run = per_item_calls [OF assms]
  show ?thesis
  proof (cases "continueOnFail p \<or> ?ok")
    case True
    have "snd (item_loop e (continueOnFail p) verb ?coll ?key ?ups [] its)
            = [] @ item_calls e verb ?coll ?key ?ups its"
    proof (cases "continueOnFail p")
      case True
      then show ?thesis
        using item_loop_continue [of e verb ?coll ?key ?ups "[]" its] by auto
    next
      case False
      then have ?ok using True by simp
      then show ?thesis
        by (rule item_loop_calls_all_ok)
    qed
    then have "calls (execute e p) = item_calls e verb ?coll ?key ?ups (take (length its) its)"
      unfolding run by simp
    then show ?thesis
      by (intro exI [of _ "length its"]) simp
  next
    case False
    obtain n where n: "n \<le> length its"
      "snd (item_loop e (continueOnFail p) verb ?coll ?key ?ups [] its)
         = [] @ item_calls e verb ?coll ?key ?ups (take n its)"
      using item_loop_prefix [of its e "continueOnFail p" verb ?coll ?key ?ups "[]"] by blast
    then have "calls (execute e p) = item_calls e verb ?coll ?key ?ups (take n its)"
      unfolding run by simp
    moreover have "\<not> continueOnFail p" "\<not> ?ok"
      using False by blast+
    ultimately show ?thesis
      using n(1) by (intro exI [of _ n]) blast
  qed
qed

text \<open>The verb of each per-item operation, its body and its place in the driver.\<close>

lemma verb_tie:
  assumes "(operation p = ''findOneAndReplace'' \<and> C = FindOneAndReplace \<and> wrap = VObj \<and>
              driver = findOneAndReplace e) \<or>
           (operation p = ''findOneAndUpdate'' \<and> C = FindOneAndUpdate \<and>
              wrap = (\<lambda>d. VObj [(''$set'', VObj d)]) \<and> driver = findOneAndUpdate e) \<or>
           (operation p = ''update'' \<and> C = UpdateOne \<and>
              wrap = (\<lambda>d. VObj [(''$set'', VObj d)]) \<and> driver = updateOne e)"
  shows "\<exists>verb. per_item_verb (operation p) = Some verb \<and>
           (\<forall>c f d u. verb_call verb c f (verb_body verb d) u = C c f (wrap d) u) \<and>
           (\<forall>h c f d u. verb_run e verb h c f (verb_body verb d) u = driver h c f (wrap d) u)"
proof -
  consider "operation p = ''findOneAndReplace''" "C = FindOneAndReplace" "wrap = VObj"
      "driver = findOneAndReplace e"
    | "operation p = ''findOneAndUpdate''" "C = FindOneAndUpdate"
      "wrap = (\<lambda>d. VObj [(''$set'', VObj d)])" "driver = findOneAndUpdate e"
    | "operation p = ''update''" "C = UpdateOne"
      "wrap = (\<lambda>d. VObj [(''$set'', VObj d)])" "driver = updateOne e"
    using assms by blast
  then show ?thesis
  proof cases
    case 1
    then show ?thesis
      by (intro exI [of _ VerbFindOneAndReplace]) (simp add: per_item_verb_def)
  next
    case 2
    then show ?thesis
      by (intro exI [of _ VerbFindOneAndUpdate]) (simp add: per_item_verb_def)
  next
    case 3
    then show ?thesis
      by (intro exI [of _ VerbUpdateOne]) (simp add: per_item_verb_def)
  qed
qed

lemma concat_map_take_subset:
  assumes "c \<in> set (concat (map f (take n xs)))"
  shows "\<exists>x\<in>set xs. c \<in> set (f x)"
  using assms by (auto dest: in_set_takeD)

section \<open>The per-item operations: filter and body\<close>

lemma map_of_obj_delete_other: "k' \<noteq> k \<Longrightarrow> map_of (obj_delete kvs k) k' = map_of kvs k'"
  by (induction kvs) (auto simp: obj_delete_def)

lemma call_of_verb:
  assumes "(operation p = ''findOneAndReplace'' \<and> C = FindOneAndReplace \<and> wrap = VObj \<and>
              driver = findOneAndReplace e) \<or>
           (operation p = ''findOneAndUpdate'' \<and> C = FindOneAndUpdate \<and>
              wrap = (\<lambda>d. VObj [(''$set'', VObj d)]) \<and> driver = findOneAndUpdate e) \<or>
           (operation p = ''update'' \<and> C = UpdateOne \<and>
              wrap = (\<lambda>d. VObj [(''$set'', VObj d)]) \<and> driver = updateOne e)"
  shows "call_filter (C c f (wrap d) u) = f \<and>
         (operation p = ''findOneAndReplace'' \<longrightarrow> call_body (C c f (wrap d) u) = VObj d) \<and>
         (operation p \<noteq> ''findOneAndReplace'' \<longrightarrow>
            call_body (C c f (wrap d) u) = VObj [(''$set'', VObj d)])"
proof -
  consider "operation p = ''findOneAndReplace''" "C = FindOneAndReplace" "wrap = VObj"
    | "operation p = ''findOneAndUpdate''" "C = FindOneAndUpdate"
      "wrap = (\<lambda>d. VObj [(''$set'', VObj d)])"
    | "operation p = ''update''" "C = UpdateOne"
      "wrap = (\<lambda>d. VObj [(''$set'', VObj d)])"
    using assms by blast
  then show ?thesis
    by cases simp_all
qed

text \<open>
  Claim C3: in update, findOneAndUpdate and findOneAndReplace, when the update key is
  \<^verbatim>\<open>_id\<close>.  The calls are those of the first \<open>n\<close> items, in order, one for
  each item whose identifier value the \<^verbatim>\<open>ObjectId\<close> constructor accepts; of all
  the items when continue-on-failure is on, or when the constructor accepts every
  identifier value and the verb never fails.  The call for an item is the operation's
  verb on the filter that is the single pair of \<^verbatim>\<open>_id\<close> and the identifier the
  constructor made, with the body that is the item without its \<^verbatim>\<open>_id\<close> key (for
  the two updates, under \<^verbatim>\<open>$set\<close>): the document in the body has no
  \<^verbatim>\<open>_id\<close> key, and every other key as the item has it.
\<close>

theorem identifier_key_only_in_filter:
  assumes verb:
      "(operation p = ''findOneAndReplace'' \<and> C = FindOneAndReplace \<and> wrap = VObj \<and>
          driver = findOneAndReplace e) \<or>
       (operation p = ''findOneAndUpdate'' \<and> C = FindOneAndUpdate \<and>
          wrap = (\<lambda>d. VObj [(''$set'', VObj d)]) \<and> driver = findOneAndUpdate e) \<or>
       (operation p = ''update'' \<and> C = UpdateOne \<and>
          wrap = (\<lambda>d. VObj [(''$set'', VObj d)]) \<and> driver = updateOne e)"
    and key: "trim (updateKeyParam p) = ''_id''"
    and normalized:
      "prepareItems e (inputData p) (prepareFields e (fieldsParam p)) (trim (updateKeyParam p))
         (useDotNotation p) (prepareFields e (dateFields p)) (prepareFields e (oidFields p))
       = Inr its"
    and sent: "sent = (\<lambda>item. case ObjectId_new e (obj_get item ''_id'') of
                                Inl m \<Rightarrow> []
                              | Inr b \<Rightarrow> [C (collection p) [(''_id'', VOid b)]
                                            (wrap (obj_delete item ''_id'')) (upsert p)])"
  shows "(\<exists>n\<le>length its.
            calls (execute e p) = concat (map sent (take n its)) \<and>
            (continueOnFail p \<longrightarrow> n = length its) \<and>
            ((\<forall>item\<in>set its. \<exists>b. ObjectId_new e (obj_get item ''_id'') = Inr b) \<and>
             (\<forall>h c f b u. driver h c f b u = None) \<longrightarrow> n = length its)) \<and>
         (\<forall>c\<in>set (calls (execute e p)). \<exists>item\<in>set its. \<exists>b d.
            ObjectId_new e (obj_get item ''_id'') = Inr b \<and>
            d = obj_delete item ''_id'' \<and>
            c = C (collection p) [(''_id'', VOid b)] (wrap d) (upsert p) \<and>
            call_filter c = [(''_id'', VOid b)] \<and>
            (operation p = ''findOneAndReplace'' \<longrightarrow> call_body c = VObj d) \<and>
            (operation p \<noteq> ''findOneAndReplace'' \<longrightarrow> call_body c = VObj [(''$set'', VObj d)]) \<and>
            \<not> has_key d ''_id'' \<and>
            (\<forall>k. k \<noteq> ''_id'' \<longrightarrow> map_of d k = map_of item k))"
proof -
  let ?coll = "collection p" and ?ups = "upsert p"
  have items: "updateItems e p = Inr its"
    using normalized by (simp add: updateItems_def)
  obtain v where v: "per_item_verb (operation p) = Some v"
    and call: "\<forall>c f d u. verb_call v c f (verb_body v d) u = C c f (wrap d) u"
    and answer: "\<forall>h c f d u. verb_run e v h c f (verb_body v d) u = driver h c f (wrap d) u"
    using verb_tie [OF verb] by blast
  have sent_eq: "item_call e v ?coll ''_id'' ?ups item = sent item" for item
    unfolding sent item_call_def build_filter_def using call by (simp split: sum.splits)
  have calls_eq: "item_calls e v ?coll ''_id'' ?ups xs = concat (map sent xs)" for xs
    unfolding item_calls_def using sent_eq by (simp cong: map_cong)
  have ok: "\<forall>item\<in>set its. \<forall>h. \<exists>d. fst (item_try e v ?coll ''_id'' ?ups h item) = Inr d"
    if nofail: "(\<forall>item\<in>set its. \<exists>b. ObjectId_new e (obj_get item ''_id'') = Inr b) \<and>
        (\<forall>h c f b u. driver h c f b u = None)"
  proof (intro ballI allI)
    fix item h assume "item \<in> set its"
    then have "\<exists>b. ObjectId_new e (obj_get item ''_id'') = Inr b"
      using nofail by blast
    then obtain b where "ObjectId_new e (obj_get item ''_id'') = Inr b"
      by blast
    then show "\<exists>d. fst (item_try e v ?coll ''_id'' ?ups h item) = Inr d"
      unfolding item_try_def build_filter_def using answer nofail by simp
  qed
  obtain n where n: "n \<le> length its"
      "calls (execute e p) = item_calls e v ?coll ''_id'' ?ups (take n its)"
      "continueOnFail p \<longrightarrow> n = length its"
      "(\<forall>item\<in>set its. \<forall>h. \<exists>d. fst (item_try e v ?coll ''_id'' ?ups h item) = Inr d)
         \<longrightarrow> n = length its"
    using per_item_calls_shape [OF v items] unfolding key by blast
  have run: "calls (execute e p) = concat (map sent (take n its))"
    using n(2) unfolding calls_eq .
  have first: "\<exists>n\<le>length its.
            calls (execute e p) = concat (map sent (take n its)) \<and>
            (continueOnFail p \<longrightarrow> n = length its) \<and>
            ((\<forall>item\<in>set its. \<exists>b. ObjectId_new e (obj_get item ''_id'') = Inr b) \<and>
             (\<forall>h c f b u. driver h c f b u = None) \<longrightarrow> n = length its)"
    using n(1) run n(3) n(4) ok by blast
  have second: "\<forall>c\<in>set (calls (execute e p)). \<exists>item\<in>set its. \<exists>b d.
            ObjectId_new e (obj_get item ''_id'') = Inr b \<and>
            d = obj_delete item ''_id'' \<and>
            c = C (collection p) [(''_id'', VOid b)] (wrap d) (upsert p) \<and>
            call_filter c = [(''_id'', VOid b)] \<and>
            (operation p = ''findOneAndReplace'' \<longrightarrow> call_body c = VObj d) \<and>
            (operation p \<noteq> ''findOneAndReplace'' \<longrightarrow> call_body c = VObj [(''$set'', VObj d)]) \<and>
            \<not> has_key d ''_id'' \<and>
            (\<forall>k. k \<noteq> ''_id'' \<longrightarrow> map_of d k = map_of item k)"
  proof
    fix c assume "c \<in> set (calls (execute e p))"
    then have "c \<in> set (concat (map sent (take n its)))"
      unfolding run .
    then have "\<exists>item\<in>set its. c \<in> set (sent item)"
      by (rule concat_map_take_subset)
    then obtain item where item: "item \<in> set its" "c \<in> set (sent item)"
      by blast
    have "\<exists>b. ObjectId_new e (obj_get item ''_id'') = Inr b \<and>
              c = C ?coll [(''_id'', VOid b)] (wrap (obj_delete item ''_id'')) ?ups"
    proof (cases "ObjectId_new e (obj_get item ''_id'')")
      case (Inl m)
      then show ?thesis using item(2) unfolding sent by simp
    next
      case (Inr b)
      then show ?thesis using item(2) unfolding sent by simp
    qed
    then obtain b where b: "ObjectId_new e (obj_get item ''_id'') = Inr b"
        "c = C ?coll [(''_id'', VOid b)] (wrap (obj_delete item ''_id'')) ?ups"
      by blast
    let ?d = "obj_delete item ''_id''"
    have "call_filter c = [(''_id'', VOid b)] \<and>
          (operation p = ''findOneAndReplace'' \<longrightarrow> call_body c = VObj ?d) \<and>
          (operation p \<noteq> ''findOneAndReplace'' \<longrightarrow> call_body c = VObj [(''$set'', VObj ?d)])"
      unfolding b(2) by (rule call_of_verb [OF verb])
    moreover have "\<not> has_key ?d ''_id''"
      by (rule has_key_obj_delete)
    moreover have "\<forall>k. k \<noteq> ''_id'' \<longrightarrow> map_of ?d k = map_of item k"
      by (simp add: map_of_obj_delete_other)
    ultimately show "\<exists>item\<in>set its. \<exists>b d.
            ObjectId_new e (obj_get item ''_id'') = Inr b \<and>
            d = obj_delete item ''_id'' \<and>
            c = C (collection p) [(''_id'', VOid b)] (wrap d) (upsert p) \<and>
            call_filter c = [(''_id'', VOid b)] \<and>
            (operation p = ''findOneAndReplace'' \<longrightarrow> call_body c = VObj d) \<and>
            (operation p \<noteq> ''findOneAndReplace'' \<longrightarrow> call_body c = VObj [(''$set'', VObj d)]) \<and>
            \<not> has_key d ''_id'' \<and>
            (\<forall>k. k \<noteq> ''_id'' \<longrightarrow> map_of d k = map_of item k)"
      using item(1) b by blast
  qed
  from first second show ?thesis by blast
qed

theorem identifier_key_only_in_filter_witness:
  "calls (execute sample_env
      (sample_parameters\<lparr>operation := ''findOneAndUpdate'',
         updateKeyParam := [CHR 0xC2, CHR 0xA0] @ ''_id '', continueOnFail := True,
         inputData :=
           [VObj [(''json'', VObj [(''_id'', VStr ''507f1f77bcf86cd799439011''), (''name'', VStr ''a'')])],
            VObj [(''json'', VObj [(''_id'', VStr ''xyz''), (''name'', VStr ''b'')])],
            VObj [(''json'', VObj [(''name'', VStr ''c''), (''_id'', VOid (replicate 12 7))])]]\<rparr>))
     = [FindOneAndUpdate ''people''
          [(''_id'', VOid [0x50, 0x7f, 0x1f, 0x77, 0xbc, 0xf8, 0x6c, 0xd7, 0x99, 0x43, 0x90, 0x11])]
          (VObj [(''$set'', VObj [(''name'', VStr ''a'')])]) False,
        FindOneAndUpdate ''people''
          [(''_id'', VOid [7, 7, 7, 7, 7, 7, 7, 7, 7, 7, 7, 7])]
          (VObj [(''$set'', VObj [(''name'', VStr ''c'')])]) False]"
proof -
  let ?p = "sample_parameters\<lparr>operation := ''findOneAndUpdate'',
         updateKeyParam := [CHR 0xC2, CHR 0xA0] @ ''_id '', continueOnFail := True,
         inputData :=
           [VObj [(''json'', VObj [(''_id'', VStr ''507f1f77bcf86cd799439011''), (''name'', VStr ''a'')])],
            VObj [(''json'', VObj [(''_id'', VStr ''xyz''), (''name'', VStr ''b'')])],
            VObj [(''json'', VObj [(''name'', VStr ''c''), (''_id'', VOid (replicate 12 7))])]]\<rparr>"
  let ?its = "[[(''_id'', VStr ''507f1f77bcf86cd799439011''), (''name'', VStr ''a'')],
               [(''_id'', VStr ''xyz''), (''name'', VStr ''b'')],
               [(''name'', VStr ''c''), (''_id'', VOid (replicate 12 7))]]"
  let ?sent = "\<lambda>item. case ObjectId_new sample_env (obj_get item ''_id'') of
                        Inl m \<Rightarrow> []
                      | Inr b \<Rightarrow> [FindOneAndUpdate (collection ?p) [(''_id'', VOid b)]
                                    (VObj [(''$set'', VObj (obj_delete item ''_id''))]) (upsert ?p)]"
  have op: "operation ?p = ''findOneAndUpdate''"
    by simp
  have h1: "(operation ?p = ''findOneAndReplace'' \<and> FindOneAndUpdate = FindOneAndReplace \<and>
               (\<lambda>d. VObj [(''$set'', VObj d)]) = VObj \<and>
               findOneAndUpdate sample_env = findOneAndReplace sample_env) \<or>
            (operation ?p = ''findOneAndUpdate'' \<and> FindOneAndUpdate = FindOneAndUpdate \<and>
               (\<lambda>d. VObj [(''$set'', VObj d)]) = (\<lambda>d. VObj [(''$set'', VObj d)]) \<and>
               findOneAndUpdate sample_env = findOneAndUpdate sample_env) \<or>
            (operation ?p = ''update'' \<and> FindOneAndUpdate = UpdateOne \<and>
               (\<lambda>d. VObj [(''$set'', VObj d)]) = (\<lambda>d. VObj [(''$set'', VObj d)]) \<and>
               findOneAndUpdate sample_env = updateOne sample_env)"
    using op by blast
  have h2: "trim (updateKeyParam ?p) = ''_id''"
    by code_simp
  have h3: "updateItems sample_env ?p = Inr ?its"
    by code_simp
  have cof: "continueOnFail ?p"
    by simp
  have sent: "concat (map ?sent ?its) =
      [FindOneAndUpdate ''people''
          [(''_id'', VOid [0x50, 0x7f, 0x1f, 0x77, 0xbc, 0xf8, 0x6c, 0xd7, 0x99, 0x43, 0x90, 0x11])]
          (VObj [(''$set'', VObj [(''name'', VStr ''a'')])]) False,
        FindOneAndUpdate ''people''
          [(''_id'', VOid [7, 7, 7, 7, 7, 7, 7, 7, 7, 7, 7, 7])]
          (VObj [(''$set'', VObj [(''name'', VStr ''c'')])]) False]"
    by code_simp
  from conjunct1 [OF identifier_key_only_in_filter [OF h1 h2 h3 [unfolded updateItems_def] refl]]
  obtain n where "calls (execute sample_env ?p) = concat (map ?sent (take n ?its))"
      "continueOnFail ?p \<longrightarrow> n = length ?its"
    by blast
  then have "calls (execute sample_env ?p) = concat (map ?sent ?its)"
    using cof by simp
  then show ?thesis
    unfolding sent .
qed

text \<open>
  Claim C10: in update, findOneAndUpdate and findOneAndReplace, when the update key is
  not empty and is not \<^verbatim>\<open>_id\<close>.  The calls are those of the first \<open>n\<close>
  items, in order, one for each item; of all the items when continue-on-failure is on,
  or when the verb never fails.  The call for an item is the operation's verb on the
  filter that is the single pair of the update key and the item's value for it, with the
  body that is the item as the normalizer returned it, nothing removed (for the two
  updates, under \<^verbatim>\<open>$set\<close>): a value the item holds under the update key is the
  value of that key in the filter and in the document of the body alike.
\<close>

theorem update_key_in_filter_and_body:
  assumes verb:
      "(operation p = ''findOneAndReplace'' \<and> C = FindOneAndReplace \<and> wrap = VObj \<and>
          driver = findOneAndReplace e) \<or>
       (operation p = ''findOneAndUpdate'' \<and> C = FindOneAndUpdate \<and>
          wrap = (\<lambda>d. VObj [(''$set'', VObj d)]) \<and> driver = findOneAndUpdate e) \<or>
       (operation p = ''update'' \<and> C = UpdateOne \<and>
          wrap = (\<lambda>d. VObj [(''$set'', VObj d)]) \<and> driver = updateOne e)"
    and key: "trim (updateKeyParam p) = k" and nonempty: "k \<noteq> []" and other: "k \<noteq> ''_id''"
    and normalized:
      "prepareItems e (inputData p) (prepareFields e (fieldsParam p)) (trim (updateKeyParam p))
         (useDotNotation p) (prepareFields e (dateFields p)) (prepareFields e (oidFields p))
       = Inr its"
    and sent: "sent = (\<lambda>item. [C (collection p) [(k, obj_get item k)] (wrap item) (upsert p)])"
  shows "(\<exists>n\<le>length its.
            calls (execute e p) = concat (map sent (take n its)) \<and>
            (continueOnFail p \<longrightarrow> n = length its) \<and>
            ((\<forall>h c f b u. driver h c f b u = None) \<longrightarrow> n = length its)) \<and>
         (\<forall>c\<in>set (calls (execute e p)). \<exists>item\<in>set its.
            c = C (collection p) [(k, obj_get item k)] (wrap item) (upsert p) \<and>
            call_filter c = [(k, obj_get item k)] \<and>
            (operation p = ''findOneAndReplace'' \<longrightarrow> call_body c = VObj item) \<and>
            (operation p \<noteq> ''findOneAndReplace'' \<longrightarrow> call_body c = VObj [(''$set'', VObj item)]) \<and>
            (\<forall>v. map_of item k = Some v \<longrightarrow>
               map_of (call_filter c) k = Some v \<and>
               (operation p = ''findOneAndReplace'' \<longrightarrow>
                  (\<exists>d. call_body c = VObj d \<and> map_of d k = Some v)) \<and>
               (operation p \<noteq> ''findOneAndReplace'' \<longrightarrow>
                  (\<exists>d. call_body c = VObj [(''$set'', VObj d)] \<and> map_of d k = Some v))))"
proof -
  let ?coll = "collection p" and ?ups = "upsert p"
  have items: "updateItems e p = Inr its"
    using normalized by (simp add: updateItems_def)
  obtain v where v: "per_item_verb (operation p) = Some v"
    and call: "\<forall>c f d u. verb_call v c f (verb_body v d) u = C c f (wrap d) u"
    and answer: "\<forall>h c f d u. verb_run e v h c f (verb_body v d) u = driver h c f (wrap d) u"
    using verb_tie [OF verb] by blast
  have sent_eq: "item_call e v ?coll k ?ups item = sent item" for item
    unfolding sent item_call_def build_filter_def using call other by simp
  have calls_eq: "item_calls e v ?coll k ?ups xs = concat (map sent xs)" for xs
    unfolding item_calls_def using sent_eq by (simp cong: map_cong)
  have ok: "\<forall>item\<in>set its. \<forall>h. \<exists>d. fst (item_try e v ?coll k ?ups h item) = Inr d"
    if nofail: "\<forall>h c f b u. driver h c f b u = None"
    unfolding item_try_def build_filter_def using answer nofail other by simp
  obtain n where n: "n \<le> length its"
      "calls (execute e p) = item_calls e v ?coll k ?ups (take n its)"
      "continueOnFail p \<longrightarrow> n = length its"
      "(\<forall>item\<in>set its. \<forall>h. \<exists>d. fst (item_try e v ?coll k ?ups h item) = Inr d)
         \<longrightarrow> n = length its"
    using per_item_calls_shape [OF v items] unfolding key by blast
  have run: "calls (execute e p) = concat (map sent (take n its))"
    using n(2) unfolding calls_eq .
  have first: "\<exists>n\<le>length its.
            calls (execute e p) = concat (map sent (take n its)) \<and>
            (continueOnFail p \<longrightarrow> n = length its) \<and>
            ((\<forall>h c f b u. driver h c f b u = None) \<longrightarrow> n = length its)"
    using n(1) run n(3) n(4) ok by blast
  have second: "\<forall>c\<in>set (calls (execute e p)). \<exists>item\<in>set its.
            c = C (collection p) [(k, obj_get item k)] (wrap item) (upsert p) \<and>
            call_filter c = [(k, obj_get item k)] \<and>
            (operation p = ''findOneAndReplace'' \<longrightarrow> call_body c = VObj item) \<and>
            (operation p \<noteq> ''findOneAndReplace'' \<longrightarrow> call_body c = VObj [(''$set'', VObj item)]) \<and>
            (\<forall>v. map_of item k = Some v \<longrightarrow>
               map_of (call_filter c) k = Some v \<and>
               (operation p = ''findOneAndReplace'' \<longrightarrow>
                  (\<exists>d. call_body c = VObj d \<and> map_of d k = Some v)) \<and>
               (operation p \<noteq> ''findOneAndReplace'' \<longrightarrow>
                  (\<exists>d. call_body c = VObj [(''$set'', VObj d)] \<and> map_of d k = Some v)))"
  proof
    fix c assume "c \<in> set (calls (execute e p))"
    then have "c \<in> set (concat (map sent (take n its)))"
      unfolding run .
    then have "\<exists>item\<in>set its. c \<in> set (sent item)"
      by (rule concat_map_take_subset)
    then obtain item where item: "item \<in> set its" "c \<in> set (sent item)"
      by blast
    have c: "c = C ?coll [(k, obj_get item k)] (wrap item) ?ups"
      using item(2) unfolding sent by simp
    have shape: "call_filter c = [(k, obj_get item k)] \<and>
          (operation p = ''findOneAndReplace'' \<longrightarrow> call_body c = VObj item) \<and>
          (operation p \<noteq> ''findOneAndReplace'' \<longrightarrow> call_body c = VObj [(''$set'', VObj item)])"
      unfolding c by (rule call_of_verb [OF verb])
    have "\<forall>v. map_of item k = Some v \<longrightarrow>
               map_of (call_filter c) k = Some v \<and>
               (operation p = ''findOneAndReplace'' \<longrightarrow>
                  (\<exists>d. call_body c = VObj d \<and> map_of d k = Some v)) \<and>
               (operation p \<noteq> ''findOneAndReplace'' \<longrightarrow>
                  (\<exists>d. call_body c = VObj [(''$set'', VObj d)] \<and> map_of d k = Some v))"
      using shape by (auto simp: obj_get_def)
    then show "\<exists>item\<in>set its.
            c = C (collection p) [(k, obj_get item k)] (wrap item) (upsert p) \<and>
            call_filter c = [(k, obj_get item k)] \<and>
            (operation p = ''findOneAndReplace'' \<longrightarrow> call_body c = VObj item) \<and>
            (operation p \<noteq> ''findOneAndReplace'' \<longrightarrow> call_body c = VObj [(''$set'', VObj item)]) \<and>
            (\<forall>v. map_of item k = Some v \<longrightarrow>
               map_of (call_filter c) k = Some v \<and>
               (operation p = ''findOneAndReplace'' \<longrightarrow>
                  (\<exists>d. call_body c = VObj d \<and> map_of d k = Some v)) \<and>
               (operation p \<noteq> ''findOneAndReplace'' \<longrightarrow>
                  (\<exists>d. call_body c = VObj [(''$set'', VObj d)] \<and> map_of d k = Some v)))"
      using item(1) c shape by blast
  qed
  from first second show ?thesis by blast
qed

theorem update_key_in_filter_and_body_witness:
  "calls (execute (sample_env\<lparr>findOneAndReplace := (\<lambda>h c f b u. None)\<rparr>)
      (sample_parameters\<lparr>operation := ''findOneAndReplace'', updateKeyParam := '' name'',
         upsert := True,
         inputData :=
           [VObj [(''json'', VObj [(''name'', VStr ''a''), (''age'', VNum 30)])],
            VObj [(''json'', VObj [(''age'', VNum 31), (''name'', VStr ''locked'')])]]\<rparr>))
     = [FindOneAndReplace ''people'' [(''name'', VStr ''a'')]
          (VObj [(''name'', VStr ''a''), (''age'', VNum 30)]) True,
        FindOneAndReplace ''people'' [(''name'', VStr ''locked'')]
          (VObj [(''age'', VNum 31), (''name'', VStr ''locked'')]) True]"
proof -
  let ?e = "sample_env\<lparr>findOneAndReplace := (\<lambda>h c f b u. None)\<rparr>"
  let ?p = "sample_parameters\<lparr>operation := ''findOneAndReplace'', updateKeyParam := '' name'',
         upsert := True,
         inputData :=
           [VObj [(''json'', VObj [(''name'', VStr ''a''), (''age'', VNum 30)])],
            VObj [(''json'', VObj [(''age'', VNum 31), (''name'', VStr ''locked'')])]]\<rparr>"
  let ?its = "[[(''name'', VStr ''a''), (''age'', VNum 30)],
               [(''age'', VNum 31), (''name'', VStr ''locked'')]]"
  let ?sent = "\<lambda>item. [FindOneAndReplace (collection ?p) [(''name'', obj_get item ''name'')]
                         (VObj item) (upsert ?p)]"
  have op: "operation ?p = ''findOneAndReplace''"
    by simp
  have h1: "(operation ?p = ''findOneAndReplace'' \<and> FindOneAndReplace = FindOneAndReplace \<and>
               VObj = VObj \<and> findOneAndReplace ?e = findOneAndReplace ?e) \<or>
            (operation ?p = ''findOneAndUpdate'' \<and> FindOneAndReplace = FindOneAndUpdate \<and>
               VObj = (\<lambda>d. VObj [(''$set'', VObj d)]) \<and>
               findOneAndReplace ?e = findOneAndUpdate ?e) \<or>
            (operation ?p = ''update'' \<and> FindOneAndReplace = UpdateOne \<and>
               VObj = (\<lambda>d. VObj [(''$set'', VObj d)]) \<and>
               findOneAndReplace ?e = updateOne ?e)"
    using op by blast
  have h2: "trim (updateKeyParam ?p) = ''name''"
    by code_simp
  have h3: "''name'' \<noteq> []" and h4: "''name'' \<noteq> ''_id''"
    by simp_all
  have h5: "updateItems ?e ?p = Inr ?its"
    by code_simp
  have never: "\<forall>h c f b u. findOneAndReplace ?e h c f b u = None"
    by simp
  have sent: "concat (map ?sent ?its) =
      [FindOneAndReplace ''people'' [(''name'', VStr ''a'')]
          (VObj [(''name'', VStr ''a''), (''age'', VNum 30)]) True,
        FindOneAndReplace ''people'' [(''name'', VStr ''locked'')]
          (VObj [(''age'', VNum 31), (''name'', VStr ''locked'')]) True]"
    by code_simp
  from conjunct1 [OF update_key_in_filter_and_body [OF h1 h2 h3 h4 h5 [unfolded updateItems_def] refl]]
  obtain n where "calls (execute ?e ?p) = concat (map ?sent (take n ?its))"
      "(\<forall>h c f b u. findOneAndReplace ?e h c f b u = None) \<longrightarrow> n = length ?its"
    by blast
  then have "calls (execute ?e ?p) = concat (map ?sent ?its)"
    using never by simp
  then show ?thesis
    unfolding sent .
qed

section \<open>The per-item operations: failures\<close>




section \<open>Insert\<close>







section \<open>Find: skip, limit and sort\<close>

lemma applied_skip_iff: "applied_skip s = Some n \<longleftrightarrow> s = Some n \<and> n > 0"
  by (auto simp: applied_skip_def split: option.splits)

lemma applied_limit_iff: "applied_limit l = Some n \<longleftrightarrow> l = Some n \<and> n > 0"
  by (auto simp: applied_limit_def split: option.splits)

lemma obj_get_absent_constructor:
  "\<not> has_key kvs ''constructor'' \<Longrightarrow> obj_get kvs ''constructor'' = VProto ''constructor''"
  by (simp add: has_key_def obj_get_def object_prototype_keys_def)

lemma applied_sort_iff:
  "applied_sort v = Some w \<longleftrightarrow>
     w = v \<and> (\<exists>kvs. v = VObj kvs \<and> kvs \<noteq> [] \<and>
                  obj_get kvs ''constructor'' = VProto ''constructor'')"
  by (cases v) (auto simp: applied_sort_def)

lemma parse_sort_cases:
  "parse_sort e s =
     (case s of
        None \<Rightarrow> Inr VUndefined
      | Some t \<Rightarrow> if t = [] then Inr (VStr [])
                  else (case EJSON_parse e t of Inl m \<Rightarrow> Inl (ParseError m) | Inr v \<Rightarrow> Inr v))"
  by (simp add: parse_sort_def)

lemma find_calls:
  assumes "operation p = ''find''"
    and "EJSON_parse e (query p) = Inr q"
    and "coerce_query_id e q = Inr q'"
  shows "calls (execute e p) =
           (case parse_sort e (opt_sort (options p)) of
              Inl err \<Rightarrow> []
            | Inr sortSpec \<Rightarrow>
                [Find (collection p) q' (applied_skip (opt_skip (options p)))
                   (applied_limit (opt_limit (options p))) (applied_sort sortSpec)])"
  unfolding calls_execute dispatch_find [OF assms(1)] snd_catch_batch
  using assms(2,3) by (simp add: find_try_def Let_def split: sum.splits)

text \<open>
  Claim C4 says that, for all option values of find, skip is applied if and only if it is
  positive, limit likewise, and sort if and only if the sort string is non-empty and
  parses to a plain mapping with at least one key.  Two runs: with skip 5 and a sort
  string that does not parse, line 183 throws before line 185 and nothing is applied, no
  query is run; with limit 10 and the sort string \<^verbatim>\<open>{"constructor": 1}\<close>, a
  plain mapping with one key, the query is run without the sort, because
  \<^verbatim>\<open>sort.constructor\<close> reads the mapping's own key.
\<close>

theorem find_options_not_applied:
  \<open>calls (execute sample_env
      (sample_parameters\<lparr>operation := ''find'', query := ''{"status": "active"}'',
         options := \<lparr>opt_limit = None, opt_skip = Some 5, opt_sort = Some ''{age''\<rparr>\<rparr>))
     = []
   \<and> outcome (execute sample_env
      (sample_parameters\<lparr>operation := ''find'', query := ''{"status": "active"}'',
         options := \<lparr>opt_limit = None, opt_skip = Some 5, opt_sort = Some ''{age''\<rparr>\<rparr>))
     = Inl (ParseError ''Unexpected token in JSON'')
   \<and> calls (execute sample_env
      (sample_parameters\<lparr>operation := ''find'', query := ''{"status": "active"}'',
         options := \<lparr>opt_limit = Some 10, opt_skip = None, opt_sort = Some ''{"constructor": 1}''\<rparr>\<rparr>))
     = [Find ''people'' (VObj [(''status'', VStr ''active'')]) None (Some 10) None]\<close>
  by code_simp

text \<open>
  Claim C4, amended: in find, when the query string parses and its identifier is
  coerced.  If the sort string is absent, empty or parses, one query is run; skip is
  applied to it if and only if it is positive, and limit likewise; sort is applied only
  if the sort string is non-empty and parses to a plain mapping with at least one key,
  and it is applied whenever that mapping has no key named \<^verbatim>\<open>constructor\<close>.
  If the sort string is non-empty and does not parse, no query is run.
\<close>

theorem find_options_applied:
  assumes "operation p = ''find''"
    and "EJSON_parse e (query p) = Inr q"
    and "coerce_query_id e q = Inr q'"
  shows "((\<forall>t. opt_sort (options p) = Some t \<and> t \<noteq> [] \<longrightarrow> (\<exists>v. EJSON_parse e t = Inr v)) \<longrightarrow>
            (\<exists>sk li so.
               calls (execute e p) = [Find (collection p) q' sk li so] \<and>
               (\<forall>n. sk = Some n \<longleftrightarrow> opt_skip (options p) = Some n \<and> n > 0) \<and>
               (\<forall>n. li = Some n \<longleftrightarrow> opt_limit (options p) = Some n \<and> n > 0) \<and>
               (\<forall>v. so = Some v \<longrightarrow>
                  (\<exists>t kvs. opt_sort (options p) = Some t \<and> t \<noteq> [] \<and>
                           EJSON_parse e t = Inr v \<and> v = VObj kvs \<and> kvs \<noteq> [])) \<and>
               (\<forall>t kvs. opt_sort (options p) = Some t \<and> t \<noteq> [] \<and>
                        EJSON_parse e t = Inr (VObj kvs) \<and> kvs \<noteq> [] \<and>
                        \<not> has_key kvs ''constructor'' \<longrightarrow> so = Some (VObj kvs)))) \<and>
         (\<forall>t m. opt_sort (options p) = Some t \<and> t \<noteq> [] \<and> EJSON_parse e t = Inl m \<longrightarrow>
                calls (execute e p) = [])"
proof (intro conjI impI allI)
  assume ok: "\<forall>t. opt_sort (options p) = Some t \<and> t \<noteq> [] \<longrightarrow> (\<exists>v. EJSON_parse e t = Inr v)"
  let ?sk = "applied_skip (opt_skip (options p))"
  let ?li = "applied_limit (opt_limit (options p))"
  have "\<exists>sv. parse_sort e (opt_sort (options p)) = Inr sv \<and>
             (\<forall>v. applied_sort sv = Some v \<longrightarrow>
                 (\<exists>t kvs. opt_sort (options p) = Some t \<and> t \<noteq> [] \<and>
                          EJSON_parse e t = Inr v \<and> v = VObj kvs \<and> kvs \<noteq> [])) \<and>
             (\<forall>t kvs. opt_sort (options p) = Some t \<and> t \<noteq> [] \<and>
                      EJSON_parse e t = Inr (VObj kvs) \<and> kvs \<noteq> [] \<and>
                      \<not> has_key kvs ''constructor'' \<longrightarrow> applied_sort sv = Some (VObj kvs))"
  proof (cases "opt_sort (options p)")
    case None
    then show ?thesis
      by (simp add: parse_sort_cases applied_sort_iff)
  next
    case (Some t)
    show ?thesis
    proof (cases "t = []")
      case True
      then show ?thesis
        using Some by (simp add: parse_sort_cases applied_sort_iff)
    next
      case False
      then obtain v where v: "EJSON_parse e t = Inr v"
        using ok Some by blast
      then have "parse_sort e (opt_sort (options p)) = Inr v"
        using Some False by (simp add: parse_sort_cases)
      then show ?thesis
        using Some False v by (auto simp: applied_sort_iff obj_get_absent_constructor)
    qed
  qed
  then obtain sv where sv: "parse_sort e (opt_sort (options p)) = Inr sv"
    and only_if: "\<forall>v. applied_sort sv = Some v \<longrightarrow>
                 (\<exists>t kvs. opt_sort (options p) = Some t \<and> t \<noteq> [] \<and>
                          EJSON_parse e t = Inr v \<and> v = VObj kvs \<and> kvs \<noteq> [])"
    and if_plain: "\<forall>t kvs. opt_sort (options p) = Some t \<and> t \<noteq> [] \<and>
                      EJSON_parse e t = Inr (VObj kvs) \<and> kvs \<noteq> [] \<and>
                      \<not> has_key kvs ''constructor'' \<longrightarrow> applied_sort sv = Some (VObj kvs)"
    by blast
  have run: "calls (execute e p) = [Find (collection p) q' ?sk ?li (applied_sort sv)]"
    unfolding find_calls [OF assms] sv by simp
  have sk: "\<forall>n. ?sk = Some n \<longleftrightarrow> opt_skip (options p) = Some n \<and> n > 0"
    by (simp add: applied_skip_iff)
  have li: "\<forall>n. ?li = Some n \<longleftrightarrow> opt_limit (options p) = Some n \<and> n > 0"
    by (simp add: applied_limit_iff)
  from run sk li only_if if_plain
  show "\<exists>sk li so.
               calls (execute e p) = [Find (collection p) q' sk li so] \<and>
               (\<forall>n. sk = Some n \<longleftrightarrow> opt_skip (options p) = Some n \<and> n > 0) \<and>
               (\<forall>n. li = Some n \<longleftrightarrow> opt_limit (options p) = Some n \<and> n > 0) \<and>
               (\<forall>v. so = Some v \<longrightarrow>
                  (\<exists>t kvs. opt_sort (options p) = Some t \<and> t \<noteq> [] \<and>
                           EJSON_parse e t = Inr v \<and> v = VObj kvs \<and> kvs \<noteq> [])) \<and>
               (\<forall>t kvs. opt_sort (options p) = Some t \<and> t \<noteq> [] \<and>
                        EJSON_parse e t = Inr (VObj kvs) \<and> kvs \<noteq> [] \<and>
                        \<not> has_key kvs ''constructor'' \<longrightarrow> so = Some (VObj kvs))"
    by blast
next
  fix t m
  assume "opt_sort (options p) = Some t \<and> t \<noteq> [] \<and> EJSON_parse e t = Inl m"
  then have "parse_sort e (opt_sort (options p)) = Inl (ParseError m)"
    by (simp add: parse_sort_cases)
  then show "calls (execute e p) = []"
    unfolding find_calls [OF assms] by simp
qed

theorem find_options_applied_witness:
  \<open>calls (execute sample_env
      (sample_parameters\<lparr>operation := ''find'', query := ''{"status": "active"}'',
         options := \<lparr>opt_limit = Some 10, opt_skip = Some 0, opt_sort = Some ''{"age": -1}''\<rparr>\<rparr>))
     = [Find ''people'' (VObj [(''status'', VStr ''active'')]) None (Some 10)
          (Some (VObj [(''age'', VNum (- 1))]))]\<close>
proof -
  let ?p = \<open>sample_parameters\<lparr>operation := ''find'', query := ''{"status": "active"}'',
         options := \<lparr>opt_limit = Some 10, opt_skip = Some 0, opt_sort = Some ''{"age": -1}''\<rparr>\<rparr>\<close>
  let ?q = "VObj [(''status'', VStr ''active'')]"
  let ?kvs = "[(''age'', VNum (- 1))]"
  have h1: "operation ?p = ''find''"
    by code_simp
  have h2: "EJSON_parse sample_env (query ?p) = Inr ?q"
    by code_simp
  have h3: "coerce_query_id sample_env ?q = Inr ?q"
    by code_simp
  have sort: \<open>opt_sort (options ?p) = Some ''{"age": -1}''\<close>
    and skip: "opt_skip (options ?p) = Some 0"
    and limit: "opt_limit (options ?p) = Some 10"
    and coll: "collection ?p = ''people''"
    by (simp_all add: sample_parameters_def)
  have parsed: \<open>EJSON_parse sample_env ''{"age": -1}'' = Inr (VObj ?kvs)\<close>
    by code_simp
  have plain: "?kvs \<noteq> [] \<and> \<not> has_key ?kvs ''constructor''"
    by code_simp
  have ok: "\<forall>t. opt_sort (options ?p) = Some t \<and> t \<noteq> [] \<longrightarrow> (\<exists>v. EJSON_parse sample_env t = Inr v)"
    unfolding sort using parsed by auto
  from find_options_applied [OF h1 h2 h3] ok
  obtain sk li so where run: "calls (execute sample_env ?p) = [Find (collection ?p) ?q sk li so]"
    and sk: "\<forall>n. sk = Some n \<longleftrightarrow> opt_skip (options ?p) = Some n \<and> n > 0"
    and li: "\<forall>n. li = Some n \<longleftrightarrow> opt_limit (options ?p) = Some n \<and> n > 0"
    and so: "\<forall>t kvs. opt_sort (options ?p) = Some t \<and> t \<noteq> [] \<and>
                        EJSON_parse sample_env t = Inr (VObj kvs) \<and> kvs \<noteq> [] \<and>
                        \<not> has_key kvs ''constructor'' \<longrightarrow> so = Some (VObj kvs)"
    by blast
  have "sk = None"
    using sk unfolding skip by (cases sk) auto
  moreover have "li = Some 10"
    using li [rule_format, of 10] unfolding limit by simp
  moreover have "so = Some (VObj ?kvs)"
    using so [rule_format, of \<open>''{"age": -1}''\<close> ?kvs] sort parsed plain by simp
  ultimately show ?thesis
    using run unfolding coll by simp
qed

section \<open>Identifiers: to a string and back\<close>

lemma hex_digits_lower: "list_all (\<lambda>(c, n). hex_char n = lowercase c \<and> n < 16) hex_digits"
  by code_simp

lemma hex_value_lower:
  assumes "hex_value c = Some n"
  shows "hex_char n = lowercase c \<and> n < 16"
proof -
  have "(c, n) \<in> set hex_digits"
    using assms unfolding hex_value_def by (rule map_of_SomeD)
  then show ?thesis
    using hex_digits_lower unfolding list_all_iff by blast
qed

lemma unat_byte:
  assumes "x < 16" and "y < 16"
  shows "unat (of_nat (16 * x + y) :: 8 word) = 16 * x + y"
proof -
  have "16 * x + y < 256"
    using assms by linarith
  then have "16 * x + y < 2 ^ LENGTH(8)"
    by simp
  then show ?thesis
    by (simp only: unat_of_nat mod_less)
qed

lemma byte_digits:
  fixes x y :: nat
  assumes "x < 16" and "y < 16"
  shows "(16 * x + y) div 16 = x" and "(16 * x + y) mod 16 = y"
  using assms by simp_all

lemma toHexString_Cons:
  "toHexString (b # bs) = hex_char (unat b div 16) # hex_char (unat b mod 16) # toHexString bs"
  by (simp add: toHexString_def)

text \<open>The bytes read from a string are written back as the string in lower case.\<close>

lemma parse_hex_bytes_round:
  "parse_hex_bytes s = Some bs \<Longrightarrow> toHexString bs = map lowercase s"
proof (induction s arbitrary: bs rule: parse_hex_bytes.induct)
  case 1
  then show ?case by (simp add: toHexString_def)
next
  case (2 c)
  then show ?case by simp
next
  case (3 c d rest)
  from "3.prems" obtain x y bs' where p:
    "hex_value c = Some x" "hex_value d = Some y" "parse_hex_bytes rest = Some bs'"
    "bs = of_nat (16 * x + y) # bs'"
    by (auto split: option.splits)
  have x: "hex_char x = lowercase c" "x < 16"
    using hex_value_lower [OF p(1)] by simp_all
  have y: "hex_char y = lowercase d" "y < 16"
    using hex_value_lower [OF p(2)] by simp_all
  have ih: "toHexString bs' = map lowercase rest"
    using "3.IH" [OF p(1) p(2) p(3)] .
  have "toHexString bs = hex_char x # hex_char y # toHexString bs'"
    unfolding p(4) toHexString_Cons unat_byte [OF x(2) y(2)] byte_digits [OF x(2) y(2)] ..
  then show ?case
    unfolding x(1) y(1) ih by simp
qed

lemma parse_hex_bytes_total:
  "even (length s) \<Longrightarrow> list_all is_hex s \<Longrightarrow> \<exists>bs. parse_hex_bytes s = Some bs"
proof (induction s rule: parse_hex_bytes.induct)
  case 1
  then show ?case by simp
next
  case (2 c)
  then show ?case by simp
next
  case (3 c d rest)
  from "3.prems" obtain x y where xy: "hex_value c = Some x" "hex_value d = Some y"
    by (auto simp: is_hex_def)
  from "3.prems" have "even (length rest)" "list_all is_hex rest"
    by simp_all
  with "3.IH" [OF xy] obtain bs where "parse_hex_bytes rest = Some bs"
    by blast
  then show ?case using xy by simp
qed

lemma parse_hex_bytes_length:
  "parse_hex_bytes s = Some bs \<Longrightarrow> length s = 2 * length bs"
  by (induction s arbitrary: bs rule: parse_hex_bytes.induct) (auto split: option.splits)

lemma ObjectId_fromString_valid:
  assumes "length s = 24" and "list_all is_hex s"
  shows "\<exists>b. ObjectId_fromString s = Inr b \<and> length b = 12 \<and> toHexString b = map lowercase s"
proof -
  have "even (length s)"
    using assms(1) by simp
  then obtain b where b: "parse_hex_bytes s = Some b"
    using parse_hex_bytes_total assms(2) by blast
  have "length b = 12"
    using parse_hex_bytes_length [OF b] assms(1) by simp
  then show ?thesis
    using b assms(1) parse_hex_bytes_round [OF b] by (simp add: ObjectId_fromString_def)
qed

lemma stringifyObjectIDs_idem:
  "stringifyObjectIDs (stringifyObjectIDs v) = stringifyObjectIDs v"
  by (induction v rule: stringifyObjectIDs.induct) simp_all

text \<open>
  Claim C9 says that coercing a valid 24-hex string and stringifying the identifier gives
  the string back.  The string \<^verbatim>\<open>507F1F77BCF86CD799439011\<close> is a valid
  24-hex string; its identifier is written \<^verbatim>\<open>507f1f77bcf86cd799439011\<close>.
\<close>

theorem upper_case_identifier_not_restored:
  "ObjectId_fromString ''507F1F77BCF86CD799439011''
     = Inr [0x50, 0x7f, 0x1f, 0x77, 0xbc, 0xf8, 0x6c, 0xd7, 0x99, 0x43, 0x90, 0x11]
   \<and> stringifyObjectIDs (VOid [0x50, 0x7f, 0x1f, 0x77, 0xbc, 0xf8, 0x6c, 0xd7, 0x99, 0x43, 0x90, 0x11])
     = VStr ''507f1f77bcf86cd799439011''
   \<and> stringifyObjectIDs (VOid [0x50, 0x7f, 0x1f, 0x77, 0xbc, 0xf8, 0x6c, 0xd7, 0x99, 0x43, 0x90, 0x11])
     \<noteq> VStr ''507F1F77BCF86CD799439011''"
  by code_simp

text \<open>
  Claim C9, amended: coercing a string of twenty-four hexadecimal digits succeeds, and
  stringifying the identifier gives the string with its letters in lower case, which is
  the string itself when it has no upper-case letter; and the stringifier is idempotent:
  applied to a structure it has already been applied to, it changes nothing.
\<close>

theorem identifier_round_trip:
  "(length s = 24 \<and> list_all is_hex s \<longrightarrow>
      (\<exists>b. ObjectId_fromString s = Inr b \<and>
           stringifyObjectIDs (VOid b) = VStr (map lowercase s) \<and>
           (list_all (\<lambda>c. lowercase c = c) s \<longrightarrow> stringifyObjectIDs (VOid b) = VStr s))) \<and>
   stringifyObjectIDs (stringifyObjectIDs v) = stringifyObjectIDs v"
proof (intro conjI impI)
  assume s: "length s = 24 \<and> list_all is_hex s"
  then obtain b where b: "ObjectId_fromString s = Inr b" "toHexString b = map lowercase s"
    using ObjectId_fromString_valid [of s] by blast
  have "list_all (\<lambda>c. lowercase c = c) s \<longrightarrow> map lowercase s = s"
    by (simp add: list_all_iff map_idI)
  then show "\<exists>b. ObjectId_fromString s = Inr b \<and>
           stringifyObjectIDs (VOid b) = VStr (map lowercase s) \<and>
           (list_all (\<lambda>c. lowercase c = c) s \<longrightarrow> stringifyObjectIDs (VOid b) = VStr s)"
    using b by auto
next
  show "stringifyObjectIDs (stringifyObjectIDs v) = stringifyObjectIDs v"
    by (rule stringifyObjectIDs_idem)
qed

theorem identifier_round_trip_witness:
  "length ''507f1f77bcf86cd799439011'' = 24 \<and> list_all is_hex ''507f1f77bcf86cd799439011'' \<and>
   list_all (\<lambda>c. lowercase c = c) ''507f1f77bcf86cd799439011'' \<and>
   (\<exists>b. ObjectId_fromString ''507f1f77bcf86cd799439011'' = Inr b \<and>
        stringifyObjectIDs (VOid b) = VStr ''507f1f77bcf86cd799439011'') \<and>
   stringifyObjectIDs (stringifyObjectIDs
      (VArr [VObj [(''_id'', VOid [0x50, 0x7f, 0x1f, 0x77, 0xbc, 0xf8, 0x6c, 0xd7, 0x99, 0x43, 0x90, 0x11]),
                   (''tags'', VArr [VStr ''a''])]]))
     = VArr [VObj [(''_id'', VStr ''507f1f77bcf86cd799439011''), (''tags'', VArr [VStr ''a''])]]"
proof -
  let ?s = "''507f1f77bcf86cd799439011''"
  let ?v = "VArr [VObj [(''_id'', VOid [0x50, 0x7f, 0x1f, 0x77, 0xbc, 0xf8, 0x6c, 0xd7, 0x99, 0x43, 0x90, 0x11]),
                   (''tags'', VArr [VStr ''a''])]]"
  have h1: "length ?s = 24" by simp
  have h2: "list_all is_hex ?s" by code_simp
  have h3: "list_all (\<lambda>c. lowercase c = c) ?s" by code_simp
  have once: "stringifyObjectIDs ?v
     = VArr [VObj [(''_id'', VStr ''507f1f77bcf86cd799439011''), (''tags'', VArr [VStr ''a''])]]"
    by code_simp
  from identifier_round_trip [of ?s ?v] h1 h2 h3
  have "(\<exists>b. ObjectId_fromString ?s = Inr b \<and> stringifyObjectIDs (VOid b) = VStr ?s)"
    and "stringifyObjectIDs (stringifyObjectIDs ?v) = stringifyObjectIDs ?v"
    by blast+
  then show ?thesis
    unfolding once using h1 h2 h3 by blast
qed

end
